theory Spec2Isabelle
  imports Main
begin

section \<open>Python values, text and bytes\<close>

text \<open>
  A Python \<open>str\<close> is a sequence of Unicode code points, and \<open>len\<close> counts code points.
  A \<open>bytes\<close> object is a sequence of 8-bit values, which is what a \<open>char list\<close> is in
  HOL. The two are kept apart because the encoder measures text in code points
  (\<open>len(v)\<close>) while the scanner measures the encoded buffer in bytes.
\<close>

type_synonym pystr = "nat list"
type_synonym bytes = "char list"

text \<open>A literal of the source, written in ASCII, as Python text.\<close>

definition ustr :: "string \<Rightarrow> pystr" where
  "ustr s = map of_char s"

text \<open>
  The exceptions that can arise inside \<open>send_to_nrepl\<close>. All of them are subclasses of
  Python's \<open>Exception\<close>: the two that have a handler of their own, the two raised by the
  UTF-8 codec, and any other one with the text that \<open>str(e)\<close> gives for it.
\<close>

datatype exn =
    SocketTimeout
  | ConnectionRefusedError
  | UnicodeEncodeError
  | UnicodeDecodeError
  | OtherException pystr

text \<open>
  The values a request dictionary can hold. \<open>bool\<close> is a subclass of \<open>int\<close> in Python,
  which \<open>isinstance_int\<close> below reflects. A float is kept as mantissa and binary
  exponent; the encoder never looks inside it.
\<close>

datatype pyval =
    PStr pystr
  | PInt int
  | PBool bool
  | PList "pyval list"
  | PFloat int int
  | PDict "(pystr \<times> pyval) list"
  | PNone

fun isinstance_str :: "pyval \<Rightarrow> bool" where
  "isinstance_str (PStr s) = True"
| "isinstance_str v = False"

fun isinstance_int :: "pyval \<Rightarrow> bool" where
  "isinstance_int (PInt i) = True"
| "isinstance_int (PBool b) = True"
| "isinstance_int v = False"

fun isinstance_bool :: "pyval \<Rightarrow> bool" where
  "isinstance_bool (PBool b) = True"
| "isinstance_bool v = False"

fun isinstance_list :: "pyval \<Rightarrow> bool" where
  "isinstance_list (PList xs) = True"
| "isinstance_list v = False"

subsection \<open>Decimal text\<close>

fun str_nat :: "nat \<Rightarrow> pystr" where
  "str_nat n = (if n < 10 then [48 + n] else str_nat (n div 10) @ [48 + n mod 10])"

declare str_nat.simps [simp del]

definition str_int :: "int \<Rightarrow> pystr" where
  "str_int i = (if i < 0 then 45 # str_nat (nat (- i)) else str_nat (nat i))"

text \<open>
  What an f-string substitutes for \<open>{v}\<close>: the decimal digits of an integer, the words
  \<open>True\<close> and \<open>False\<close> for a boolean, the text itself for a string. The source formats
  nothing else.
\<close>

fun format_value :: "pyval \<Rightarrow> pystr" where
  "format_value (PStr s) = s"
| "format_value (PInt i) = str_int i"
| "format_value (PBool b) = (if b then ustr ''True'' else ustr ''False'')"
| "format_value v = []"

text \<open>The text of \<open>v\<close> when \<open>v\<close> is known to be a string.\<close>

fun str_text :: "pyval \<Rightarrow> pystr" where
  "str_text (PStr s) = s"
| "str_text v = []"

fun list_items :: "pyval \<Rightarrow> pyval list" where
  "list_items (PList xs) = xs"
| "list_items v = []"

fun truthy :: "pyval \<Rightarrow> bool" where
  "truthy (PBool b) = b"
| "truthy (PInt i) = (i \<noteq> 0)"
| "truthy (PStr s) = (s \<noteq> [])"
| "truthy (PList xs) = (xs \<noteq> [])"
| "truthy (PFloat m e) = (m \<noteq> 0)"
| "truthy (PDict kvs) = (kvs \<noteq> [])"
| "truthy PNone = False"

subsection \<open>UTF-8\<close>

text \<open>
  \<open>str.encode()\<close> and \<open>bytes.decode()\<close> with their defaults: UTF-8, strict. Encoding
  fails on a surrogate code point; decoding accepts exactly the well-formed byte
  sequences of the Unicode standard.
\<close>

definition utf8_char :: "nat \<Rightarrow> bytes option" where
  "utf8_char c =
     (if c < 0x80 then Some [char_of c]
      else if c < 0x800 then Some [char_of (0xC0 + c div 0x40), char_of (0x80 + c mod 0x40)]
      else if 0xD800 \<le> c \<and> c \<le> 0xDFFF then None
      else if c < 0x10000 then
        Some [char_of (0xE0 + c div 0x1000), char_of (0x80 + c div 0x40 mod 0x40),
              char_of (0x80 + c mod 0x40)]
      else if c < 0x110000 then
        Some [char_of (0xF0 + c div 0x40000), char_of (0x80 + c div 0x1000 mod 0x40),
              char_of (0x80 + c div 0x40 mod 0x40), char_of (0x80 + c mod 0x40)]
      else None)"

fun encode :: "pystr \<Rightarrow> exn + bytes" where
  "encode [] = Inr []"
| "encode (c # cs) =
     (case utf8_char c of
        None \<Rightarrow> Inl UnicodeEncodeError
      | Some bs \<Rightarrow> (case encode cs of Inl e \<Rightarrow> Inl e | Inr r \<Rightarrow> Inr (bs @ r)))"

definition cont :: "char \<Rightarrow> bool" where
  "cont b = (0x80 \<le> (of_char b :: nat) \<and> (of_char b :: nat) \<le> 0xBF)"

definition second_ok :: "nat \<Rightarrow> nat \<Rightarrow> char \<Rightarrow> bool" where
  "second_ok lo hi b = (lo \<le> (of_char b :: nat) \<and> (of_char b :: nat) \<le> hi)"

definition low6 :: "char \<Rightarrow> nat" where
  "low6 b = of_char b mod 0x40"

text \<open>
  One code point from the front of a buffer, with the number of bytes it took.
  The second byte of a three- or four-byte form is restricted as the standard says
  (no overlong forms, no surrogates, nothing above U+10FFFF).
\<close>

definition utf8_next :: "bytes \<Rightarrow> (nat \<times> nat) option" where
  "utf8_next bs =
     (case bs of
        [] \<Rightarrow> None
      | b0 # r0 \<Rightarrow>
          (let n0 = (of_char b0 :: nat) in
           if n0 < 0x80 then Some (n0, 1)
           else if 0xC2 \<le> n0 \<and> n0 \<le> 0xDF then
             (case r0 of
                b1 # r1 \<Rightarrow> if cont b1 then Some ((n0 - 0xC0) * 0x40 + low6 b1, 2) else None
              | _ \<Rightarrow> None)
           else if 0xE0 \<le> n0 \<and> n0 \<le> 0xEF then
             (case r0 of
                b1 # b2 # r2 \<Rightarrow>
                  if second_ok (if n0 = 0xE0 then 0xA0 else 0x80) (if n0 = 0xED then 0x9F else 0xBF) b1
                     \<and> cont b2
                  then Some ((n0 - 0xE0) * 0x1000 + low6 b1 * 0x40 + low6 b2, 3) else None
              | _ \<Rightarrow> None)
           else if 0xF0 \<le> n0 \<and> n0 \<le> 0xF4 then
             (case r0 of
                b1 # b2 # b3 # r3 \<Rightarrow>
                  if second_ok (if n0 = 0xF0 then 0x90 else 0x80) (if n0 = 0xF4 then 0x8F else 0xBF) b1
                     \<and> cont b2 \<and> cont b3
                  then Some ((n0 - 0xF0) * 0x40000 + low6 b1 * 0x1000 + low6 b2 * 0x40 + low6 b3, 4)
                  else None
              | _ \<Rightarrow> None)
           else None))"

lemma utf8_next_consumes:
  assumes "utf8_next bs = Some (c, k)"
  shows "0 < k \<and> k \<le> length bs"
  using assms
  by (auto simp: utf8_next_def Let_def split: list.splits if_splits)

function decode :: "bytes \<Rightarrow> exn + pystr" where
  "decode bs =
     (if bs = [] then Inr []
      else (case utf8_next bs of
              None \<Rightarrow> Inl UnicodeDecodeError
            | Some (c, k) \<Rightarrow>
                (case decode (drop k bs) of Inl e \<Rightarrow> Inl e | Inr cs \<Rightarrow> Inr (c # cs))))"
  by pat_completeness auto
termination
proof (relation "measure length")
  show "wf (measure length)" by simp
next
  fix bs :: bytes and x2 :: "nat \<times> nat" and c k
  assume "bs \<noteq> []" and "utf8_next bs = Some x2" and "(c, k) = x2"
  then have "utf8_next bs = Some (c, k)" by simp
  then have "0 < k" using utf8_next_consumes by blast
  with \<open>bs \<noteq> []\<close> show "(drop k bs, bs) \<in> measure length" by simp
qed

declare decode.simps [simp del]


section \<open>Bencode codec\<close>

subsection \<open>Encoder\<close>

text \<open>
  A request is a Python \<open>dict\<close> with text keys; iteration follows insertion order, so
  it is a list of pairs. \<open>str(k)\<close> of a text key is the key. The loop of
  \<open>bencode_encode_list\<close> appends to \<open>result\<close> for each item, by the \<open>if\<close>/\<open>elif\<close>
  chain of the source, in the source's order.
\<close>

fun bencode_encode_list_loop :: "pystr \<Rightarrow> pyval list \<Rightarrow> pystr" where
  "bencode_encode_list_loop result [] = result"
| "bencode_encode_list_loop result (item # rest) =
     bencode_encode_list_loop
       (if isinstance_str item then
          result @ str_nat (length (str_text item)) @ ustr '':'' @ str_text item
        else if isinstance_int item then
          result @ ustr ''i'' @ format_value item @ ustr ''e''
        else if isinstance_bool item then
          result @ ustr ''i'' @ str_int (if truthy item then 1 else 0) @ ustr ''e''
        else result)
       rest"

definition bencode_encode_list :: "pyval list \<Rightarrow> pystr" where
  "bencode_encode_list data = bencode_encode_list_loop [] data"

fun bencode_encode_loop :: "pystr \<Rightarrow> (pystr \<times> pyval) list \<Rightarrow> pystr" where
  "bencode_encode_loop result [] = result"
| "bencode_encode_loop result ((k, v) # rest) =
     (let result = result @ str_nat (length k) @ ustr '':'' @ k in
      bencode_encode_loop
        (if isinstance_str v then
           result @ str_nat (length (str_text v)) @ ustr '':'' @ str_text v
         else if isinstance_int v then
           result @ ustr ''i'' @ format_value v @ ustr ''e''
         else if isinstance_bool v then
           result @ ustr ''i'' @ str_int (if truthy v then 1 else 0) @ ustr ''e''
         else if isinstance_list v then
           result @ ustr ''l'' @ bencode_encode_list (list_items v) @ ustr ''e''
         else result)
        rest)"

text \<open>The text built before the final \<open>result.encode()\<close>.\<close>

definition bencode_text :: "(pystr \<times> pyval) list \<Rightarrow> pystr" where
  "bencode_text data = bencode_encode_loop (ustr ''d'') data @ ustr ''e''"

definition bencode_encode :: "(pystr \<times> pyval) list \<Rightarrow> exn + bytes" where
  "bencode_encode data = encode (bencode_text data)"

subsection \<open>Field scanner\<close>

text \<open>
  \<open>s.startswith(p)\<close>, and \<open>p in s\<close> for sequences.
\<close>

fun startswith :: "'a list \<Rightarrow> 'a list \<Rightarrow> bool" where
  "startswith s [] = True"
| "startswith [] (p # ps) = False"
| "startswith (c # cs) (p # ps) = (c = p \<and> startswith cs ps)"

fun contains :: "'a list \<Rightarrow> 'a list \<Rightarrow> bool" where
  "contains [] sub = startswith [] sub"
| "contains (c # cs) sub = (startswith (c # cs) sub \<or> contains cs sub)"

text \<open>\<open>\d\<close> in a bytes pattern matches the ten ASCII digits only.\<close>

definition is_digit :: "char \<Rightarrow> bool" where
  "is_digit c = (48 \<le> (of_char c :: nat) \<and> (of_char c :: nat) \<le> 57)"

text \<open>
  \<open>int(...)\<close> of a group that \<open>\d+\<close> matched, as a Python integer without bound; the
  cap that newer interpreters can put on the number of digits converted is a setting of
  the interpreter and is not part of the model.
\<close>

definition int_of_digits :: "bytes \<Rightarrow> nat" where
  "int_of_digits ds = foldl (\<lambda>a c. 10 * a + (of_char c - 48)) 0 ds"

text \<open>
  The pattern \<open>marker(\d+):\<close> anchored at the front of \<open>s\<close>: the digits of group 1
  and the buffer from \<open>match.end()\<close> on. The greedy \<open>\d+\<close> takes every digit; giving
  some back cannot help, since the next byte would then be a digit and not the colon.
\<close>

definition match_at :: "bytes \<Rightarrow> bytes \<Rightarrow> (bytes \<times> bytes) option" where
  "match_at marker s =
     (if startswith s marker then
        (let rest = drop (length marker) s;
             ds = takeWhile is_digit rest;
             after = dropWhile is_digit rest
         in if ds \<noteq> [] \<and> startswith after '':'' then Some (ds, drop 1 after) else None)
      else None)"

text \<open>\<open>re.search\<close>: the match at the leftmost position that has one.\<close>

fun re_search :: "bytes \<Rightarrow> bytes \<Rightarrow> (bytes \<times> bytes) option" where
  "re_search marker [] = match_at marker []"
| "re_search marker (c # cs) =
     (case match_at marker (c # cs) of
        Some m \<Rightarrow> Some m
      | None \<Rightarrow> re_search marker cs)"

text \<open>
  One extraction block of \<open>parse_bencode_response\<close> up to the slice
  \<open>data[pos:pos+length]\<close>: \<open>None\<close> when the pattern has no match.
\<close>

definition field_bytes :: "bytes \<Rightarrow> bytes \<Rightarrow> bytes option" where
  "field_bytes marker data =
     (case re_search marker data of
        None \<Rightarrow> None
      | Some (ds, after) \<Rightarrow> Some (take (int_of_digits ds) after))"

text \<open>
  The pattern \<open>6:status.*4:done\<close>. The dot of a bytes pattern matches any byte but
  the newline.
\<close>

fun dotstar_then :: "bytes \<Rightarrow> bytes \<Rightarrow> bool" where
  "dotstar_then pat [] = startswith [] pat"
| "dotstar_then pat (c # cs) = (startswith (c # cs) pat \<or> (c \<noteq> CHR 0x0A \<and> dotstar_then pat cs))"

fun re_search_status :: "bytes \<Rightarrow> bool" where
  "re_search_status [] = False"
| "re_search_status (c # cs) =
     ((startswith (c # cs) ''6:status'' \<and> dotstar_then ''4:done'' (drop 8 (c # cs)))
      \<or> re_search_status cs)"

text \<open>
  The dictionary that \<open>parse_bencode_response\<close> returns has at most the five keys below,
  four of them with text and \<open>status\<close> with a list of texts; a field is \<open>None\<close> when the
  key is absent.
\<close>

record decoded =
  f_new_session :: "pystr option"
  f_value :: "pystr option"
  f_status :: "pystr list option"
  f_err :: "pystr option"
  f_root_ex :: "pystr option"

definition empty_decoded :: decoded where
  "empty_decoded = \<lparr>f_new_session = None, f_value = None, f_status = None,
                     f_err = None, f_root_ex = None\<rparr>"

text \<open>
  An extraction block with its \<open>.decode()\<close>, which raises on bytes that are not UTF-8:
  the field when the pattern matches, nothing when it does not.
\<close>

definition extract_field :: "bytes \<Rightarrow> bytes \<Rightarrow> exn + pystr option" where
  "extract_field marker data =
     (case field_bytes marker data of
        None \<Rightarrow> Inr None
      | Some bs \<Rightarrow> (case decode bs of Inl e \<Rightarrow> Inl e | Inr t \<Rightarrow> Inr (Some t)))"

definition parse_bencode_response :: "bytes \<Rightarrow> exn + decoded" where
  "parse_bencode_response data =
     (case extract_field ''11:new-session'' data of
        Inl e \<Rightarrow> Inl e
      | Inr session_id \<Rightarrow>
     (case extract_field ''5:value'' data of
        Inl e \<Rightarrow> Inl e
      | Inr val \<Rightarrow>
     (let status = (if re_search_status data then Some [ustr ''done''] else None) in
     (case extract_field ''3:err'' data of
        Inl e \<Rightarrow> Inl e
      | Inr err \<Rightarrow>
     (case extract_field ''7:root-ex'' data of
        Inl e \<Rightarrow> Inl e
      | Inr root_ex \<Rightarrow>
          Inr \<lparr>f_new_session = session_id, f_value = val, f_status = status,
               f_err = err, f_root_ex = root_ex\<rparr>)))))"

subsection \<open>The two requests\<close>

definition make_session_request :: "exn + bytes" where
  "make_session_request =
     bencode_encode [(ustr ''op'', PStr (ustr ''clone'')),
                     (ustr ''verbose'', PInt 1),
                     (ustr ''prompt'', PInt 1)]"

definition make_eval_request :: "pystr \<Rightarrow> pystr \<Rightarrow> exn + bytes" where
  "make_eval_request code session_id =
     bencode_encode [(ustr ''op'', PStr (ustr ''eval'')),
                     (ustr ''code'', PStr code),
                     (ustr ''session'', PStr session_id)]"


section \<open>Session transport\<close>

text \<open>
  The socket is the outside world. Every call the function makes on it is recorded,
  in order, as an event; whether the call raises and what \<open>recv\<close> returns may depend
  on everything that happened before, so both are functions of the events so far
  (the last of which is the call being answered). \<open>exn_text\<close> is \<open>str(e)\<close> for the
  exceptions whose text the interpreter composes.
\<close>

datatype event =
    Socket
  | SetTimeout int
  | Connect pystr int
  | SendAll bytes
  | Recv nat
  | Close

record world =
  fault :: "event list \<Rightarrow> exn option"
  incoming :: "event list \<Rightarrow> bytes"
  exn_text :: "exn \<Rightarrow> pystr"

text \<open>
  The local variable \<open>sock\<close> (\<open>None\<close> until \<open>socket.socket\<close> has returned) and the
  events so far.
\<close>

record state =
  sock :: bool
  trace :: "event list"

type_synonym 'a io = "state \<Rightarrow> (exn + 'a) \<times> state"

definition return_io :: "'a \<Rightarrow> 'a io" where
  "return_io x s = (Inr x, s)"

definition lift_io :: "exn + 'a \<Rightarrow> 'a io" where
  "lift_io r s = (r, s)"

definition bind_io :: "'a io \<Rightarrow> ('a \<Rightarrow> 'b io) \<Rightarrow> 'b io" where
  "bind_io m f s = (case m s of (Inl e, s') \<Rightarrow> (Inl e, s') | (Inr x, s') \<Rightarrow> f x s')"

definition socket_call :: "world \<Rightarrow> event \<Rightarrow> unit io" where
  "socket_call w ev s =
     (let s' = s\<lparr>trace := trace s @ [ev]\<rparr> in
      case fault w (trace s') of Some e \<Rightarrow> (Inl e, s') | None \<Rightarrow> (Inr (), s'))"

text \<open>\<open>sock.recv(n)\<close> returns at most \<open>n\<close> bytes.\<close>

definition socket_recv :: "world \<Rightarrow> nat \<Rightarrow> bytes io" where
  "socket_recv w n s =
     (let s' = s\<lparr>trace := trace s @ [Recv n]\<rparr> in
      case fault w (trace s') of
        Some e \<Rightarrow> (Inl e, s')
      | None \<Rightarrow> (Inr (take n (incoming w (trace s'))), s'))"

definition assign_sock :: "unit io" where
  "assign_sock s = (Inr (), s\<lparr>sock := True\<rparr>)"

definition max_reads :: nat where
  "max_reads = 100"

definition status_done :: "decoded \<Rightarrow> bool" where
  "status_done parsed = (case f_status parsed of None \<Rightarrow> False | Some l \<Rightarrow> ustr ''done'' \<in> set l)"

function read_loop :: "world \<Rightarrow> nat \<Rightarrow> bytes \<Rightarrow> bytes io" where
  "read_loop w reads result s =
     (if reads < max_reads then
        (case socket_recv w 4096 s of
           (Inl e, s') \<Rightarrow> (Inl e, s')
         | (Inr data, s') \<Rightarrow>
             if data = [] then (Inr result, s')
             else (case parse_bencode_response (result @ data) of
                     Inl e \<Rightarrow> (Inl e, s')
                   | Inr parsed \<Rightarrow>
                       if status_done parsed then (Inr (result @ data), s')
                       else read_loop w (Suc reads) (result @ data) s'))
      else (Inr result, s))"
  by pat_completeness auto
termination
  by (relation "measure (\<lambda>(w, reads, result, s). max_reads - reads)") auto

declare read_loop.simps [simp del]

text \<open>Lines 172 to 178: what the function returns for the final decoded fields.\<close>

definition resolve :: "decoded \<Rightarrow> pystr" where
  "resolve parsed_result =
     (case f_err parsed_result of
        Some e \<Rightarrow> ustr ''Error: '' @ e
      | None \<Rightarrow>
          (case f_root_ex parsed_result of
             Some x \<Rightarrow> ustr ''Exception: '' @ x
           | None \<Rightarrow>
               (case f_value parsed_result of
                  Some v \<Rightarrow> v
                | None \<Rightarrow> ustr ''No result'')))"

text \<open>
  The body of the \<open>try\<close> block, in the four parts its comments name: the socket and
  the session (lines 135 to 143), the evaluation request (line 149), the read loop
  with the final decoding (lines 150 to 178).
\<close>

definition create_session :: "world \<Rightarrow> pystr \<Rightarrow> int \<Rightarrow> int \<Rightarrow> decoded io" where
  "create_session w host port timeout =
     bind_io (socket_call w Socket) (\<lambda>_.
     bind_io assign_sock (\<lambda>_.
     bind_io (socket_call w (SetTimeout timeout)) (\<lambda>_.
     bind_io (socket_call w (Connect host port)) (\<lambda>_.
     bind_io (lift_io make_session_request) (\<lambda>request.
     bind_io (socket_call w (SendAll request)) (\<lambda>_.
     bind_io (socket_recv w 4096) (\<lambda>session_resp.
       lift_io (parse_bencode_response session_resp))))))))"

definition collect_result :: "world \<Rightarrow> pystr io" where
  "collect_result w =
     bind_io (read_loop w 0 []) (\<lambda>result.
     bind_io (lift_io (parse_bencode_response result)) (\<lambda>parsed_result.
       return_io (resolve parsed_result)))"

definition evaluate_code :: "world \<Rightarrow> pystr \<Rightarrow> pystr \<Rightarrow> pystr io" where
  "evaluate_code w code session_id =
     bind_io (lift_io (make_eval_request code session_id)) (\<lambda>request.
     bind_io (socket_call w (SendAll request)) (\<lambda>_.
       collect_result w))"

text \<open>\<open>not session_id\<close> holds for \<open>None\<close> and for the empty text.\<close>

definition nrepl_exchange :: "world \<Rightarrow> pystr \<Rightarrow> pystr \<Rightarrow> int \<Rightarrow> int \<Rightarrow> pystr io" where
  "nrepl_exchange w code host port timeout =
     bind_io (create_session w host port timeout) (\<lambda>session_data.
       case f_new_session session_data of
         None \<Rightarrow> return_io (ustr ''Error: Could not create nREPL session'')
       | Some session_id \<Rightarrow>
           if session_id = [] then return_io (ustr ''Error: Could not create nREPL session'')
           else evaluate_code w code session_id)"

text \<open>The three \<open>except\<close> clauses, in the order of the source.\<close>

definition str_exn :: "world \<Rightarrow> exn \<Rightarrow> pystr" where
  "str_exn w e = (case e of OtherException m \<Rightarrow> m | _ \<Rightarrow> exn_text w e)"

definition except_clauses :: "world \<Rightarrow> exn \<Rightarrow> pystr" where
  "except_clauses w e =
     (if e = SocketTimeout then ustr ''Error: nREPL connection timed out''
      else if e = ConnectionRefusedError then
        ustr ''Error: nREPL connection refused. Is the nREPL server running?''
      else ustr ''Error: '' @ str_exn w e)"

text \<open>
  The \<open>finally\<close> clause: \<open>close\<close> is called when \<open>sock\<close> is set, and whatever it raises
  is dropped.
\<close>

definition finally_close :: "world \<Rightarrow> state \<Rightarrow> state" where
  "finally_close w s = (if sock s then snd (socket_call w Close s) else s)"

definition send_to_nrepl :: "world \<Rightarrow> pystr \<Rightarrow> pystr \<Rightarrow> int \<Rightarrow> int \<Rightarrow> pystr \<times> state" where
  "send_to_nrepl w code host port timeout =
     (case nrepl_exchange w code host port timeout \<lparr>sock = False, trace = []\<rparr> of
        (Inr text, s) \<Rightarrow> (text, finally_close w s)
      | (Inl e, s) \<Rightarrow> (except_clauses w e, finally_close w s))"

section \<open>Result interpreter\<close>

text \<open>\<open>str.split(sep)\<close> for a separator of one character, and \<open>sep.join(xs)\<close>.\<close>

fun split_on :: "nat \<Rightarrow> pystr \<Rightarrow> pystr list" where
  "split_on sep [] = [[]]"
| "split_on sep (c # cs) =
     (if c = sep then [] # split_on sep cs
      else (case split_on sep cs of [] \<Rightarrow> [[c]] | l # ls \<Rightarrow> (c # l) # ls))"

fun join :: "pystr \<Rightarrow> pystr list \<Rightarrow> pystr" where
  "join sep [] = []"
| "join sep [x] = x"
| "join sep (x # y # ys) = x @ sep @ join sep (y # ys)"

definition whitelist :: "pystr list" where
  "whitelist = [ustr ''File '', ustr ''Error:'', ustr ''Exception:'', ustr ''message:'',
                ustr ''line '', ustr ''phase:'']"

text \<open>\<open>any(x in line for x in xs)\<close>.\<close>

fun any_in :: "pystr list \<Rightarrow> pystr \<Rightarrow> bool" where
  "any_in [] line = False"
| "any_in (x # xs) line = (contains line x \<or> any_in xs line)"

fun format_lines_loop :: "pystr list \<Rightarrow> pystr list \<Rightarrow> pystr list" where
  "format_lines_loop formatted_lines [] = formatted_lines"
| "format_lines_loop formatted_lines (line # lines) =
     format_lines_loop
       (if any_in whitelist line then formatted_lines @ [line] else formatted_lines) lines"

text \<open>
  \<open>highlight\<close> is the syntax highlighter of the \<open>pygments\<close> library, which may raise;
  the logging calls on \<open>ctx\<close> return nothing and are left out.
\<close>

definition pretty_print_result :: "(pystr \<Rightarrow> exn + pystr) \<Rightarrow> pystr \<Rightarrow> pystr" where
  "pretty_print_result highlight result =
     (if startswith result (ustr ''Error:'') \<or> startswith result (ustr ''Exception:'') then
        (if contains result (ustr ''Traceback'') then
           join [10] (format_lines_loop [] (split_on 10 result))
         else result)
      else (case highlight result of Inr text \<Rightarrow> text | Inl e \<Rightarrow> result))"

section \<open>Tool adapter\<close>

text \<open>
  \<open>host\<close> and \<open>port\<close> are the command-line defaults of \<open>send_to_nrepl\<close>; \<open>timestamp\<close>
  is the formatted clock reading. \<open>send_to_nrepl\<close> hands back text on every path, so
  the \<open>except\<close> clause of \<open>check_connection\<close> has nothing to catch.
\<close>

definition check_connection :: "world \<Rightarrow> pystr \<Rightarrow> int \<Rightarrow> pystr \<Rightarrow> pystr" where
  "check_connection w host port timestamp =
     (let result = fst (send_to_nrepl w (ustr ''(+ 1 1)'') host port 30) in
      if result = ustr ''2'' then
        [0x2705] @ ustr '' Connection successful at '' @ timestamp
      else
        [0x26A0, 0xFE0F] @ ustr '' Connection issue at '' @ timestamp
          @ ustr ''. Server responded but with unexpected result: '' @ result)"


section \<open>Properties of the encoder\<close>

text \<open>
  The text one list item and one dictionary entry add to \<open>result\<close>; both loops are
  concatenations of these.
\<close>

definition item_text :: "pyval \<Rightarrow> pystr" where
  "item_text item = bencode_encode_list_loop [] [item]"

definition entry_text :: "pystr \<times> pyval \<Rightarrow> pystr" where
  "entry_text kv = bencode_encode_loop [] [kv]"

lemma bencode_encode_list_loop_concat:
  "bencode_encode_list_loop result items = result @ concat (map item_text items)"
  by (induction items arbitrary: result) (simp_all add: item_text_def)

lemma bencode_encode_loop_concat:
  "bencode_encode_loop result kvs = result @ concat (map entry_text kvs)"
proof (induction kvs arbitrary: result)
  case Nil
  show ?case by simp
next
  case (Cons kv kvs)
  obtain k v where kv: "kv = (k, v)" by (cases kv)
  show ?case unfolding kv
    by (simp add: Cons.IH entry_text_def Let_def)
qed

lemma encode_append:
  "encode (a @ b) =
     (case encode a of Inl e \<Rightarrow> Inl e
      | Inr x \<Rightarrow> (case encode b of Inl e \<Rightarrow> Inl e | Inr y \<Rightarrow> Inr (x @ y)))"
  by (induction a) (auto split: option.splits sum.splits)

lemma encode_append_Inr:
  "encode a = Inr x \<Longrightarrow> encode b = Inr y \<Longrightarrow> encode (a @ b) = Inr (x @ y)"
  by (simp add: encode_append)

lemma entry_text_unsupported:
  assumes "\<not> isinstance_str v" "\<not> isinstance_int v" "\<not> isinstance_bool v" "\<not> isinstance_list v"
  shows "entry_text (k, v) = str_nat (length k) @ ustr '':'' @ k"
  using assms by (simp add: entry_text_def Let_def)

text \<open>
  C4. The claim: a boolean is encoded as \<open>i1e\<close> or \<open>i0e\<close>, at top level and inside a
  list. The code tests \<open>isinstance(v, int)\<close> before \<open>isinstance(v, bool)\<close>, and a boolean
  is an \<open>int\<close>, so the first test takes it and the f-string writes the words \<open>True\<close> and
  \<open>False\<close>: the mapping \<open>{"verbose": True}\<close> is encoded as \<open>d7:verboseiTrueee\<close>, not as
  \<open>d7:verbosei1ee\<close>, and a list of booleans likewise.
\<close>

theorem bencode_encode_bool:
  "bencode_encode [(ustr ''verbose'', PBool True)] = Inr ''d7:verboseiTrueee''
   \<and> bencode_encode [(ustr ''verbose'', PBool False)] = Inr ''d7:verboseiFalseee''
   \<and> bencode_encode [(ustr ''flags'', PList [PBool True, PBool False])]
       = Inr ''d5:flagsliTrueeiFalseeee''"
  by code_simp

text \<open>
  C10. For a value that is neither text, integer, boolean nor list, the encoder writes
  the key's \<open>length:key\<close> marker and nothing for the value: the output is the bytes of
  the entries before it, the key marker, and then at once the entries after it and the
  closing \<open>e\<close>. The value raises nothing; the three encodings assumed say that the text
  of the mapping has a UTF-8 form.
\<close>

theorem bencode_encode_unsupported_value:
  assumes "\<not> isinstance_str v" and "\<not> isinstance_int v"
    and "\<not> isinstance_bool v" and "\<not> isinstance_list v"
    and "encode (bencode_encode_loop (ustr ''d'') before) = Inr head"
    and "encode (str_nat (length k) @ ustr '':'' @ k) = Inr key_marker"
    and "encode (bencode_encode_loop [] after @ ustr ''e'') = Inr rest"
  shows "bencode_encode (before @ (k, v) # after) = Inr (head @ key_marker @ rest)"
proof -
  have "bencode_text (before @ (k, v) # after) =
          bencode_encode_loop (ustr ''d'') before @ (str_nat (length k) @ ustr '':'' @ k)
            @ (bencode_encode_loop [] after @ ustr ''e'')"
    using entry_text_unsupported [OF assms(1-4), of k]
    by (simp add: bencode_text_def bencode_encode_loop_concat [of _ "before @ (k, v) # after"]
        bencode_encode_loop_concat [of _ before] bencode_encode_loop_concat [of _ after])
  then show ?thesis
    using encode_append_Inr [OF assms(5) encode_append_Inr [OF assms(6) assms(7)]]
    by (simp add: bencode_encode_def)
qed

theorem bencode_encode_unsupported_value_witness:
  "bencode_encode ([(ustr ''op'', PStr (ustr ''clone''))]
                   @ (ustr ''ratio'', PFloat 3 (- 1)) # [(ustr ''n'', PInt 7)])
     = Inr (''d2:op5:clone'' @ ''5:ratio'' @ ''1:ni7ee'')"
proof -
  have h1: "encode (bencode_encode_loop (ustr ''d'') [(ustr ''op'', PStr (ustr ''clone''))])
              = Inr ''d2:op5:clone''"
    by code_simp
  have h2: "encode (str_nat (length (ustr ''ratio'')) @ ustr '':'' @ ustr ''ratio'')
              = Inr ''5:ratio''"
    by code_simp
  have h3: "encode (bencode_encode_loop [] [(ustr ''n'', PInt 7)] @ ustr ''e'') = Inr ''1:ni7ee''"
    by code_simp
  show ?thesis
    using bencode_encode_unsupported_value [of "PFloat 3 (- 1)", OF _ _ _ _ h1 h2 h3]
    by simp
qed

section \<open>Properties of the scanner\<close>

text \<open>Decimal text is made of ASCII digits, and reading it back gives the number.\<close>

lemma utf8_char_ascii: "c < 128 \<Longrightarrow> utf8_char c = Some [char_of c]"
  by (simp add: utf8_char_def)

lemma encode_ascii: "list_all (\<lambda>c. c < 128) s \<Longrightarrow> encode s = Inr (map char_of s)"
  by (induction s) (simp_all add: utf8_char_ascii)

definition decimal :: "nat \<Rightarrow> bool" where
  "decimal c = (48 \<le> c \<and> c \<le> 57)"

lemma str_nat_decimal: "list_all decimal (str_nat n)"
proof (induction n rule: str_nat.induct)
  case (1 n)
  show ?case
  proof (cases "n < 10")
    case True
    then show ?thesis by (simp add: str_nat.simps [of n] decimal_def)
  next
    case False
    have "n mod 10 < 10" by simp
    then have "decimal (48 + n mod 10)" unfolding decimal_def by linarith
    then show ?thesis using False 1 by (simp add: str_nat.simps [of n])
  qed
qed

lemma str_nat_not_Nil: "str_nat n \<noteq> []"
  by (simp add: str_nat.simps [of n])

lemma decimal_ascii: "list_all decimal s \<Longrightarrow> list_all (\<lambda>c. c < 128) s"
  by (induction s) (simp_all add: decimal_def)

lemma encode_str_nat: "encode (str_nat n) = Inr (map char_of (str_nat n))"
  by (rule encode_ascii [OF decimal_ascii [OF str_nat_decimal]])

lemma is_digit_char_of: "decimal c \<Longrightarrow> is_digit (char_of c)"
  by (simp add: decimal_def is_digit_def)

lemma digit_value: "decimal c \<Longrightarrow> (of_char (char_of c :: char) :: nat) - 48 = c - 48"
  by (simp add: decimal_def)

lemma int_of_digits_snoc:
  "int_of_digits (ds @ [c]) = 10 * int_of_digits ds + (of_char c - 48)"
  by (simp add: int_of_digits_def)

lemma int_of_digits_str_nat: "int_of_digits (map char_of (str_nat n)) = n"
proof (induction n rule: str_nat.induct)
  case (1 n)
  show ?case
  proof (cases "n < 10")
    case True
    then show ?thesis by (simp add: str_nat.simps [of n] int_of_digits_def)
  next
    case False
    have d: "decimal (48 + n mod 10)"
      using str_nat_decimal [of n] False by (simp add: str_nat.simps [of n])
    have "int_of_digits (map char_of (str_nat n))
            = 10 * int_of_digits (map char_of (str_nat (n div 10)))
              + (of_char (char_of (48 + n mod 10) :: char) - 48)"
      using False by (simp add: str_nat.simps [of n] int_of_digits_snoc)
    also have "\<dots> = 10 * (n div 10) + n mod 10"
      using 1 False digit_value [OF d] by simp
    finally show ?thesis by simp
  qed
qed

lemma takeWhile_all: "list_all P xs \<Longrightarrow> \<not> P y \<Longrightarrow> takeWhile P (xs @ y # ys) = xs"
  by (induction xs) simp_all

lemma dropWhile_all: "list_all P xs \<Longrightarrow> \<not> P y \<Longrightarrow> dropWhile P (xs @ y # ys) = y # ys"
  by (induction xs) simp_all

lemma list_all_map_digit: "list_all decimal s \<Longrightarrow> list_all is_digit (map char_of s)"
  by (induction s) (simp_all add: is_digit_char_of)

lemma startswith_append: "startswith (p @ s) p"
  by (induction p) simp_all

lemma match_at_own_marker:
  assumes "list_all is_digit ds" and "ds \<noteq> []"
  shows "match_at marker (marker @ ds @ CHR '':'' # payload) = Some (ds, payload)"
proof -
  have nd: "\<not> is_digit CHR '':''" by (simp add: is_digit_def)
  show ?thesis
    using assms takeWhile_all [OF assms(1) nd] dropWhile_all [OF assms(1) nd]
    by (simp add: match_at_def startswith_append)
qed

lemma re_search_here: "match_at marker s = Some m \<Longrightarrow> re_search marker s = Some m"
  by (cases s) simp_all

lemma re_search_skip:
  "(\<And>i. i < length h \<Longrightarrow> match_at marker (drop i (h @ r)) = None)
     \<Longrightarrow> re_search marker (h @ r) = re_search marker r"
proof (induction h)
  case Nil
  show ?case by simp
next
  case (Cons c h)
  have "match_at marker ((c # h) @ r) = None"
    using Cons.prems [of 0] by simp
  moreover have "re_search marker (h @ r) = re_search marker r"
  proof (rule Cons.IH)
    fix i assume "i < length h"
    then show "match_at marker (drop i (h @ r)) = None"
      using Cons.prems [of "Suc i"] by simp
  qed
  ultimately show ?case by simp
qed

lemma encode_append_rest:
  assumes "encode (a @ b) = Inr d" and "encode a = Inr x"
  shows "\<exists>y. encode b = Inr y \<and> d = x @ y"
  using assms by (auto simp: encode_append split: sum.splits)

lemma encode_append_front:
  assumes "encode (a @ b) = Inr d" and "encode a = Inr x"
  shows "\<exists>y. d = x @ y"
  using encode_append_rest [OF assms] by blast

lemma entry_text_str:
  "entry_text (k, PStr v) = (str_nat (length k) @ ustr '':'' @ k) @ str_nat (length v) @ ustr '':'' @ v"
  by (simp add: entry_text_def Let_def)

lemma encode_colon: "encode (ustr '':'') = Inr '':''"
  by code_simp

lemma all_less_list_all: "list_all P [0..<n] \<Longrightarrow> \<forall>i<n. P i"
  by (simp add: list_all_iff)

text \<open>
  C3. The claim: for a request with text, integer or boolean values, encoding and then
  scanning for each key's marker \<open>length:key\<close> gives back the bytes of the key's value.
  As amended: let \<open>data\<close> be the encoding of a request in which the key \<open>k\<close> has the
  text value \<open>v\<close>, let \<open>marker\<close> be the bytes of \<open>length:key\<close> for \<open>k\<close>, and \<open>head\<close> the
  bytes written before the entry of \<open>k\<close>. If \<open>v\<close> has as many bytes as characters (it is
  ASCII) and the pattern \<open>marker(\d+):\<close> matches at no position inside \<open>head\<close>, then
  the scan for \<open>marker\<close> yields exactly the bytes of \<open>v\<close>.
\<close>

theorem scan_recovers_text_value:
  assumes enc: "bencode_encode (before @ (k, PStr v) # after) = Inr data"
    and head: "encode (bencode_encode_loop (ustr ''d'') before) = Inr head"
    and marker: "encode (str_nat (length k) @ ustr '':'' @ k) = Inr marker"
    and v: "encode v = Inr vbytes"
    and ascii: "length vbytes = length v"
    and first: "\<forall>i<length head. match_at marker (drop i data) = None"
  shows "field_bytes marker data = Some vbytes"
proof -
  let ?ds = "map char_of (str_nat (length v)) :: bytes"
  have whole: "bencode_text (before @ (k, PStr v) # after) =
          bencode_encode_loop (ustr ''d'') before
            @ ((str_nat (length k) @ ustr '':'' @ k)
               @ (str_nat (length v) @ (ustr '':'' @ (v @ (bencode_encode_loop [] after @ ustr ''e'')))))"
    by (simp add: bencode_text_def bencode_encode_loop_concat [of _ "before @ (k, PStr v) # after"]
        bencode_encode_loop_concat [of _ before] bencode_encode_loop_concat [of _ after]
        entry_text_str)
  have e0: "encode (bencode_encode_loop (ustr ''d'') before
            @ ((str_nat (length k) @ ustr '':'' @ k)
               @ (str_nat (length v) @ (ustr '':'' @ (v @ (bencode_encode_loop [] after @ ustr ''e''))))))
          = Inr data"
    using enc unfolding bencode_encode_def whole .
  obtain tl1 where d1: "data = head @ tl1"
    and e1: "encode ((str_nat (length k) @ ustr '':'' @ k)
               @ (str_nat (length v) @ (ustr '':'' @ (v @ (bencode_encode_loop [] after @ ustr ''e''))))) = Inr tl1"
    using encode_append_rest [OF e0 head] by blast
  obtain tl2 where d2: "tl1 = marker @ tl2"
    and e2: "encode (str_nat (length v) @ (ustr '':'' @ (v @ (bencode_encode_loop [] after @ ustr ''e'')))) = Inr tl2"
    using encode_append_rest [OF e1 marker] by blast
  obtain tl3 where d3: "tl2 = ?ds @ tl3"
    and e3: "encode (ustr '':'' @ (v @ (bencode_encode_loop [] after @ ustr ''e''))) = Inr tl3"
    using encode_append_rest [OF e2 encode_str_nat] by blast
  obtain tl4 where d4: "tl3 = '':'' @ tl4"
    and e4: "encode (v @ (bencode_encode_loop [] after @ ustr ''e'')) = Inr tl4"
    using encode_append_rest [OF e3 encode_colon] by blast
  obtain rest where d5: "tl4 = vbytes @ rest"
    using encode_append_front [OF e4 v] by blast
  have data: "data = head @ (marker @ ?ds @ CHR '':'' # (vbytes @ rest))"
    using d1 d2 d3 d4 d5 by simp
  have digits: "list_all is_digit ?ds" "?ds \<noteq> []"
    using list_all_map_digit [OF str_nat_decimal] str_nat_not_Nil by simp_all
  have "re_search marker data = re_search marker (marker @ ?ds @ CHR '':'' # (vbytes @ rest))"
    unfolding data
  proof (rule re_search_skip)
    fix i assume "i < length head"
    then show "match_at marker (drop i (head @ marker @ ?ds @ CHR '':'' # vbytes @ rest)) = None"
      using first data by simp
  qed
  also have "\<dots> = Some (?ds, vbytes @ rest)"
    by (rule re_search_here [OF match_at_own_marker [OF digits]])
  finally show ?thesis
    using ascii by (simp add: field_bytes_def int_of_digits_str_nat)
qed

text \<open>
  The evaluation request for \<open>(+ 1 1)\<close> in session \<open>abc\<close>, scanned for its key \<open>code\<close>.
\<close>

theorem scan_recovers_text_value_witness:
  "field_bytes ''4:code'' ''d2:op4:eval4:code7:(+ 1 1)7:session3:abce'' = Some ''(+ 1 1)''"
proof -
  have enc: "bencode_encode ([(ustr ''op'', PStr (ustr ''eval''))]
               @ (ustr ''code'', PStr (ustr ''(+ 1 1)'')) # [(ustr ''session'', PStr (ustr ''abc''))])
             = Inr ''d2:op4:eval4:code7:(+ 1 1)7:session3:abce''"
    by code_simp
  have head: "encode (bencode_encode_loop (ustr ''d'') [(ustr ''op'', PStr (ustr ''eval''))])
                = Inr ''d2:op4:eval''"
    by code_simp
  have marker: "encode (str_nat (length (ustr ''code'')) @ ustr '':'' @ ustr ''code'') = Inr ''4:code''"
    by code_simp
  have v: "encode (ustr ''(+ 1 1)'') = Inr ''(+ 1 1)''" by code_simp
  have ascii: "length ''(+ 1 1)'' = length (ustr ''(+ 1 1)'')" by (simp add: ustr_def)
  have "list_all (\<lambda>i. match_at ''4:code'' (drop i ''d2:op4:eval4:code7:(+ 1 1)7:session3:abce'') = None)
          [0..<length ''d2:op4:eval'']"
    by code_simp
  then have first: "\<forall>i<length ''d2:op4:eval''.
      match_at ''4:code'' (drop i ''d2:op4:eval4:code7:(+ 1 1)7:session3:abce'') = None"
    by (rule all_less_list_all)
  show ?thesis
    by (rule scan_recovers_text_value [OF enc head marker v ascii first])
qed

text \<open>
  The claim as stated fails on the session request of the source itself: the integer
  value of \<open>verbose\<close> is written as \<open>i1e\<close>, which the pattern \<open>7:verbose(\d+):\<close> does
  not match, so the scan finds no field at all.
\<close>

theorem scan_misses_integer_value:
  "bencode_encode [(ustr ''op'', PStr (ustr ''clone'')), (ustr ''verbose'', PInt 1),
                   (ustr ''prompt'', PInt 1)]
     = Inr ''d2:op5:clone7:verbosei1e6:prompti1ee''
   \<and> encode (str_nat (length (ustr ''verbose'')) @ ustr '':'' @ ustr ''verbose'') = Inr ''7:verbose''
   \<and> field_bytes ''7:verbose'' ''d2:op5:clone7:verbosei1e6:prompti1ee'' = None"
  by code_simp

text \<open>
  Outside ASCII the length written is the number of characters and the scanner counts
  bytes: the one-character text U+00E9 is encoded in two bytes after the length \<open>1\<close>,
  and the scan returns the first of them only.
\<close>

lemma scan_cuts_non_ascii_value:
  "bencode_encode [(ustr ''code'', PStr [0xE9])] = Inr [CHR ''d'', CHR ''4'', CHR '':'', CHR ''c'',
       CHR ''o'', CHR ''d'', CHR ''e'', CHR ''1'', CHR '':'', CHR 0xC3, CHR 0xA9, CHR ''e'']
   \<and> encode [0xE9] = Inr [CHR 0xC3, CHR 0xA9]
   \<and> field_bytes ''4:code'' [CHR ''d'', CHR ''4'', CHR '':'', CHR ''c'',
       CHR ''o'', CHR ''d'', CHR ''e'', CHR ''1'', CHR '':'', CHR 0xC3, CHR 0xA9, CHR ''e'']
      = Some [CHR 0xC3]"
  by code_simp

section \<open>Properties of the transport\<close>

subsection \<open>Vocabulary\<close>

text \<open>
  The state before the first call; the five calls of a session handshake that goes
  through and the buffer its \<open>recv\<close> returns; the state in which the read loop starts.
  \<open>quiet w done evs\<close> says that the calls \<open>evs\<close>, made in this order after the calls
  \<open>done\<close>, all return without raising.
\<close>

definition init_state :: state where
  "init_state = \<lparr>sock = False, trace = []\<rparr>"

definition session_request :: bytes where
  "session_request = ''d2:op5:clone7:verbosei1e6:prompti1ee''"

definition handshake_events :: "pystr \<Rightarrow> int \<Rightarrow> int \<Rightarrow> event list" where
  "handshake_events host port timeout =
     [Socket, SetTimeout timeout, Connect host port, SendAll session_request, Recv 4096]"

fun quiet :: "world \<Rightarrow> event list \<Rightarrow> event list \<Rightarrow> bool" where
  "quiet w done [] = True"
| "quiet w done (ev # evs) = (fault w (done @ [ev]) = None \<and> quiet w (done @ [ev]) evs)"

definition session_resp :: "world \<Rightarrow> pystr \<Rightarrow> int \<Rightarrow> int \<Rightarrow> bytes" where
  "session_resp w host port timeout = take 4096 (incoming w (handshake_events host port timeout))"

definition loop_state :: "pystr \<Rightarrow> int \<Rightarrow> int \<Rightarrow> bytes \<Rightarrow> state" where
  "loop_state host port timeout request =
     \<lparr>sock = True, trace = handshake_events host port timeout @ [SendAll request]\<rparr>"

definition reaches_loop :: "world \<Rightarrow> pystr \<Rightarrow> pystr \<Rightarrow> int \<Rightarrow> int \<Rightarrow> bytes \<Rightarrow> bool" where
  "reaches_loop w code host port timeout request =
     (quiet w [] (handshake_events host port timeout)
      \<and> (case parse_bencode_response (session_resp w host port timeout) of
            Inl e \<Rightarrow> False
          | Inr session_data \<Rightarrow>
              (case f_new_session session_data of
                 None \<Rightarrow> False
               | Some session_id \<Rightarrow>
                   session_id \<noteq> [] \<and> make_eval_request code session_id = Inr request))
      \<and> fault w (handshake_events host port timeout @ [SendAll request]) = None)"

text \<open>The number of \<open>recv\<close> calls in a list of events.\<close>

fun is_recv :: "event \<Rightarrow> bool" where
  "is_recv (Recv n) = True"
| "is_recv ev = False"

definition recv_count :: "event list \<Rightarrow> nat" where
  "recv_count tr = length (filter is_recv tr)"

text \<open>
  Three properties of a part of the exchange: it makes at most \<open>k\<close> calls of \<open>recv\<close>;
  it leaves a socket that is set and not closed as it is; and it only adds events, the
  last of which, if it raised, is what the part raises.
\<close>

definition adds_recvs :: "'a io \<Rightarrow> nat \<Rightarrow> bool" where
  "adds_recvs m k = (\<forall>s. recv_count (trace (snd (m s))) \<le> recv_count (trace s) + k)"

definition open_socket :: "state \<Rightarrow> bool" where
  "open_socket s = (sock s \<and> Close \<notin> set (trace s))"

definition keeps_open :: "'a io \<Rightarrow> bool" where
  "keeps_open m = (\<forall>s. open_socket s \<longrightarrow> open_socket (snd (m s)))"

definition reports_faults :: "world \<Rightarrow> 'a io \<Rightarrow> bool" where
  "reports_faults w m =
     (\<forall>s r s'. m s = (r, s') \<longrightarrow>
        (\<exists>evs. trace s' = trace s @ evs
           \<and> (evs \<noteq> [] \<longrightarrow> (\<forall>e. fault w (trace s') = Some e \<longrightarrow> r = Inl e))))"

text \<open>The exchange from \<open>settimeout\<close> on, once \<open>sock\<close> is set.\<close>

definition after_socket :: "world \<Rightarrow> pystr \<Rightarrow> pystr \<Rightarrow> int \<Rightarrow> int \<Rightarrow> pystr io" where
  "after_socket w code host port timeout =
     bind_io
       (bind_io (socket_call w (SetTimeout timeout)) (\<lambda>_.
        bind_io (socket_call w (Connect host port)) (\<lambda>_.
        bind_io (lift_io make_session_request) (\<lambda>request.
        bind_io (socket_call w (SendAll request)) (\<lambda>_.
        bind_io (socket_recv w 4096) (\<lambda>session_resp.
          lift_io (parse_bencode_response session_resp)))))))
       (\<lambda>session_data.
          case f_new_session session_data of
            None \<Rightarrow> return_io (ustr ''Error: Could not create nREPL session'')
          | Some session_id \<Rightarrow>
              if session_id = [] then return_io (ustr ''Error: Could not create nREPL session'')
              else evaluate_code w code session_id)"

text \<open>
  What the \<open>k\<close>-th read of the loop returns when the loop starts after the events
  \<open>tr\<close> and no read raises, the buffer after \<open>k\<close> such reads, and the condition under
  which the \<open>k\<close>-th read neither ends the loop nor raises.
\<close>

definition chunk :: "world \<Rightarrow> event list \<Rightarrow> nat \<Rightarrow> bytes" where
  "chunk w tr k = take 4096 (incoming w (tr @ replicate (Suc k) (Recv 4096)))"

fun buffer :: "world \<Rightarrow> event list \<Rightarrow> nat \<Rightarrow> bytes" where
  "buffer w tr 0 = []"
| "buffer w tr (Suc k) = buffer w tr k @ chunk w tr k"

definition not_done :: "bytes \<Rightarrow> bool" where
  "not_done buf = (case parse_bencode_response buf of Inl e \<Rightarrow> False | Inr p \<Rightarrow> \<not> status_done p)"

definition steady :: "world \<Rightarrow> event list \<Rightarrow> nat \<Rightarrow> bool" where
  "steady w tr k =
     (fault w (tr @ replicate (Suc k) (Recv 4096)) = None \<and> chunk w tr k \<noteq> []
      \<and> not_done (buffer w tr (Suc k)))"

text \<open>
  Worlds to run the exchange in: a server that never raises and answers the session
  request with one buffer and every later read with another, and a world whose
  \<open>n\<close>-th call raises. The loopback address, and the requests and replies used below.
\<close>

definition scripted :: "bytes \<Rightarrow> bytes \<Rightarrow> world" where
  "scripted session_reply eval_reply =
     \<lparr>fault = (\<lambda>tr. None),
      incoming = (\<lambda>tr. if length tr = 5 then session_reply else eval_reply),
      exn_text = (\<lambda>e. [])\<rparr>"

definition failing_at :: "nat \<Rightarrow> exn \<Rightarrow> world" where
  "failing_at n e =
     \<lparr>fault = (\<lambda>tr. if length tr = n then Some e else None),
      incoming = (\<lambda>tr. []),
      exn_text = (\<lambda>e. [])\<rparr>"

definition loopback :: pystr where
  "loopback = ustr ''127.0.0.1''"

definition eval_request_1 :: bytes where
  "eval_request_1 = ''d2:op4:eval4:code7:(+ 1 1)7:session3:abce''"

definition err_and_value :: bytes where
  "err_and_value = ''d3:err4:boom5:value1:26:statusl4:doneee''"

definition value_two :: bytes where
  "value_two = ''d5:value1:26:statusl4:doneee''"

subsection \<open>Monad laws and single steps\<close>

lemmas io_defs = bind_io_def return_io_def lift_io_def socket_call_def socket_recv_def
  assign_sock_def Let_def

lemma bind_lift_Inr: "bind_io (lift_io (Inr x)) f s = f x s"
  by (simp add: bind_io_def lift_io_def)

lemma bind_socket_call:
  "bind_io (socket_call w ev) f s =
     (case fault w (trace s @ [ev]) of
        Some e \<Rightarrow> (Inl e, s\<lparr>trace := trace s @ [ev]\<rparr>)
      | None \<Rightarrow> f () (s\<lparr>trace := trace s @ [ev]\<rparr>))"
  by (simp add: bind_io_def socket_call_def Let_def split: option.splits)

lemma bind_socket_recv:
  "bind_io (socket_recv w n) f s =
     (case fault w (trace s @ [Recv n]) of
        Some e \<Rightarrow> (Inl e, s\<lparr>trace := trace s @ [Recv n]\<rparr>)
      | None \<Rightarrow> f (take n (incoming w (trace s @ [Recv n]))) (s\<lparr>trace := trace s @ [Recv n]\<rparr>))"
  by (simp add: bind_io_def socket_recv_def Let_def split: option.splits)

lemma bind_io_assoc: "bind_io (bind_io m f) g = bind_io m (\<lambda>x. bind_io (f x) g)"
  by (rule ext) (simp add: bind_io_def split: prod.splits sum.splits)

lemma make_session_request_bytes: "make_session_request = Inr session_request"
  unfolding session_request_def by code_simp

lemma send_to_nrepl_init:
  "send_to_nrepl w code host port timeout =
     (case nrepl_exchange w code host port timeout init_state of
        (Inr text, s) \<Rightarrow> (text, finally_close w s)
      | (Inl e, s) \<Rightarrow> (except_clauses w e, finally_close w s))"
  by (simp add: send_to_nrepl_def init_state_def)

lemma create_session_quiet:
  assumes "quiet w [] (handshake_events host port timeout)"
  shows "create_session w host port timeout init_state =
           (parse_bencode_response (session_resp w host port timeout),
            \<lparr>sock = True, trace = handshake_events host port timeout\<rparr>)"
  using assms
  by (simp add: create_session_def handshake_events_def session_resp_def init_state_def
      make_session_request_bytes io_defs)

lemma nrepl_exchange_after_handshake:
  assumes "quiet w [] (handshake_events host port timeout)"
    and "parse_bencode_response (session_resp w host port timeout) = Inr session_data"
    and "f_new_session session_data = Some session_id"
    and "session_id \<noteq> []"
    and "make_eval_request code session_id = Inr request"
    and "fault w (handshake_events host port timeout @ [SendAll request]) = None"
  shows "nrepl_exchange w code host port timeout init_state =
           collect_result w
             \<lparr>sock = True, trace = handshake_events host port timeout @ [SendAll request]\<rparr>"
  using assms(2-6)
  by (simp add: nrepl_exchange_def bind_io_def [of "create_session w host port timeout"]
      create_session_quiet [OF assms(1)] evaluate_code_def bind_lift_Inr bind_socket_call)

lemma collect_result_Inr:
  assumes "read_loop w 0 [] s = (Inr buf, s')"
    and "parse_bencode_response buf = Inr p"
  shows "collect_result w s = (Inr (resolve p), s')"
  using assms by (simp add: collect_result_def bind_io_def lift_io_def return_io_def)

lemma nrepl_exchange_reaches_loop:
  assumes "reaches_loop w code host port timeout request"
  shows "nrepl_exchange w code host port timeout init_state =
           collect_result w (loop_state host port timeout request)"
proof -
  from assms obtain session_data session_id where
    "quiet w [] (handshake_events host port timeout)"
    "parse_bencode_response (session_resp w host port timeout) = Inr session_data"
    "f_new_session session_data = Some session_id" "session_id \<noteq> []"
    "make_eval_request code session_id = Inr request"
    "fault w (handshake_events host port timeout @ [SendAll request]) = None"
    by (auto simp: reaches_loop_def split: sum.splits option.splits)
  then show ?thesis
    unfolding loop_state_def by (rule nrepl_exchange_after_handshake)
qed

lemma send_to_nrepl_resolves:
  assumes "reaches_loop w code host port timeout request"
    and "read_loop w 0 [] (loop_state host port timeout request) = (Inr buf, s2)"
    and "parse_bencode_response buf = Inr p"
  shows "fst (send_to_nrepl w code host port timeout) = resolve p"
  by (simp add: send_to_nrepl_init nrepl_exchange_reaches_loop [OF assms(1)]
      collect_result_Inr [OF assms(2,3)])

lemma nrepl_exchange_socket:
  "nrepl_exchange w code host port timeout init_state =
     (case fault w [Socket] of
        Some e \<Rightarrow> (Inl e, \<lparr>sock = False, trace = [Socket]\<rparr>)
      | None \<Rightarrow> after_socket w code host port timeout \<lparr>sock = True, trace = [Socket]\<rparr>)"
  by (simp add: nrepl_exchange_def create_session_def after_socket_def bind_io_assoc
      bind_socket_call [of w Socket] init_state_def bind_io_def [of assign_sock] assign_sock_def
      split: option.splits)

lemma read_loop_unfold:
  "read_loop w reads result =
     (if reads < max_reads then
        bind_io (socket_recv w 4096) (\<lambda>data.
          if data = [] then return_io result
          else bind_io (lift_io (parse_bencode_response (result @ data))) (\<lambda>parsed.
                 if status_done parsed then return_io (result @ data)
                 else read_loop w (Suc reads) (result @ data)))
      else return_io result)"
  by (rule ext)
     (simp add: read_loop.simps [of w reads result] bind_io_def return_io_def lift_io_def
       split: prod.splits sum.splits)

lemma read_loop_done_first:
  assumes "fault w (trace s @ [Recv 4096]) = None"
    and "take 4096 (incoming w (trace s @ [Recv 4096])) = data" and "data \<noteq> []"
    and "parse_bencode_response data = Inr p" and "status_done p"
  shows "read_loop w 0 [] s = (Inr data, s\<lparr>trace := trace s @ [Recv 4096]\<rparr>)"
  using assms
  by (simp add: read_loop.simps [of w 0] max_reads_def socket_recv_def Let_def)

subsection \<open>The number of reads\<close>

lemma adds_recvsD: "adds_recvs m k \<Longrightarrow> recv_count (trace (snd (m s))) \<le> recv_count (trace s) + k"
  by (simp add: adds_recvs_def)

lemma adds_recvs_return: "adds_recvs (return_io x) 0"
  by (simp add: adds_recvs_def return_io_def)

lemma adds_recvs_lift: "adds_recvs (lift_io r) 0"
  by (simp add: adds_recvs_def lift_io_def)

lemma adds_recvs_assign: "adds_recvs assign_sock 0"
  by (simp add: adds_recvs_def assign_sock_def)

lemma adds_recvs_call: "\<not> is_recv ev \<Longrightarrow> adds_recvs (socket_call w ev) 0"
  by (simp add: adds_recvs_def socket_call_def Let_def recv_count_def split: option.splits)

lemma adds_recvs_recv: "adds_recvs (socket_recv w n) 1"
  by (simp add: adds_recvs_def socket_recv_def Let_def recv_count_def split: option.splits)

lemma adds_recvs_bind:
  assumes "adds_recvs m a" and "\<And>x. adds_recvs (f x) b"
  shows "adds_recvs (bind_io m f) (a + b)"
  unfolding adds_recvs_def
proof
  fix s
  obtain r s' where ms: "m s = (r, s')" by (cases "m s")
  have le1: "recv_count (trace s') \<le> recv_count (trace s) + a"
    using adds_recvsD [OF assms(1), of s] ms by simp
  show "recv_count (trace (snd (bind_io m f s))) \<le> recv_count (trace s) + (a + b)"
  proof (cases r)
    case (Inl e)
    then show ?thesis using ms le1 by (simp add: bind_io_def)
  next
    case (Inr x)
    have "recv_count (trace (snd (f x s'))) \<le> recv_count (trace s') + b"
      using adds_recvsD [OF assms(2)] .
    then show ?thesis using ms le1 Inr by (simp add: bind_io_def)
  qed
qed

lemma adds_recvs_mono: "adds_recvs m a \<Longrightarrow> a \<le> b \<Longrightarrow> adds_recvs m b"
  unfolding adds_recvs_def by (meson add_left_mono le_trans)

lemma read_loop_recv_count:
  "recv_count (trace (snd (read_loop w reads result s)))
     \<le> recv_count (trace s) + (max_reads - reads)"
proof (induction w reads result s rule: read_loop.induct)
  case (1 w reads result s)
  show ?case
  proof (cases "reads < max_reads")
    case False
    then show ?thesis by (simp add: read_loop.simps [of w reads result s])
  next
    case True
    obtain r s' where rs: "socket_recv w 4096 s = (r, s')" by (cases "socket_recv w 4096 s")
    have step: "recv_count (trace s') \<le> recv_count (trace s) + 1"
      using adds_recvsD [OF adds_recvs_recv, of w 4096 s] rs by simp
    show ?thesis
    proof (cases r)
      case (Inl e)
      then show ?thesis using True rs step by (simp add: read_loop.simps [of w reads result s])
    next
      case (Inr data)
      show ?thesis
      proof (cases "data = []")
        case True
        then show ?thesis using \<open>reads < max_reads\<close> rs Inr step
          by (simp add: read_loop.simps [of w reads result s])
      next
        case False
        show ?thesis
        proof (cases "parse_bencode_response (result @ data)")
          case (Inl e)
          then show ?thesis using \<open>reads < max_reads\<close> rs Inr False step
            by (simp add: read_loop.simps [of w reads result s])
        next
          case parsed: (Inr parsed)
          show ?thesis
          proof (cases "status_done parsed")
            case True
            then show ?thesis using \<open>reads < max_reads\<close> rs Inr False step parsed
              by (simp add: read_loop.simps [of w reads result s])
          next
            case nd: False
            have "recv_count (trace (snd (read_loop w (Suc reads) (result @ data) s')))
                    \<le> recv_count (trace s') + (max_reads - Suc reads)"
              using "1.IH" [OF \<open>reads < max_reads\<close> rs [symmetric] Inr False parsed nd] .
            then show ?thesis using \<open>reads < max_reads\<close> rs Inr False step parsed nd
              by (simp add: read_loop.simps [of w reads result s])
          qed
        qed
      qed
    qed
  qed
qed

lemma adds_recvs_read_loop: "adds_recvs (read_loop w reads result) (max_reads - reads)"
  by (simp add: adds_recvs_def read_loop_recv_count)

lemma adds_recvs_create_session: "adds_recvs (create_session w host port timeout) 1"
proof -
  have "adds_recvs (create_session w host port timeout) (0 + (0 + (0 + (0 + (0 + (0 + (1 + 0)))))))"
    unfolding create_session_def
    by (intro adds_recvs_bind adds_recvs_call adds_recvs_assign adds_recvs_lift adds_recvs_recv)
       simp_all
  then show ?thesis by simp
qed

lemma adds_recvs_collect_result: "adds_recvs (collect_result w) max_reads"
proof -
  have "adds_recvs (collect_result w) ((max_reads - 0) + (0 + 0))"
    unfolding collect_result_def
    by (intro adds_recvs_bind adds_recvs_read_loop adds_recvs_lift adds_recvs_return)
  then show ?thesis by simp
qed

lemma adds_recvs_evaluate_code: "adds_recvs (evaluate_code w code session_id) max_reads"
proof -
  have "adds_recvs (evaluate_code w code session_id) (0 + (0 + max_reads))"
    unfolding evaluate_code_def
    by (intro adds_recvs_bind adds_recvs_lift adds_recvs_call adds_recvs_collect_result) simp
  then show ?thesis by simp
qed

lemma adds_recvs_nrepl_exchange:
  "adds_recvs (nrepl_exchange w code host port timeout) (Suc max_reads)"
proof -
  have "adds_recvs (nrepl_exchange w code host port timeout) (1 + max_reads)"
    unfolding nrepl_exchange_def
  proof (intro adds_recvs_bind adds_recvs_create_session)
    fix session_data
    show "adds_recvs
            (case f_new_session session_data of
               None \<Rightarrow> return_io (ustr ''Error: Could not create nREPL session'')
             | Some session_id \<Rightarrow>
                 if session_id = [] then return_io (ustr ''Error: Could not create nREPL session'')
                 else evaluate_code w code session_id) max_reads"
      by (auto split: option.splits
          intro: adds_recvs_evaluate_code adds_recvs_mono [OF adds_recvs_return])
  qed
  then show ?thesis by simp
qed

lemma finally_close_recv_count: "recv_count (trace (finally_close w s)) = recv_count (trace s)"
  by (simp add: finally_close_def socket_call_def Let_def recv_count_def split: option.splits)

lemma send_to_nrepl_recv_count:
  "recv_count (trace (snd (send_to_nrepl w code host port timeout))) \<le> Suc max_reads"
proof -
  obtain r s where ex: "nrepl_exchange w code host port timeout init_state = (r, s)"
    by (cases "nrepl_exchange w code host port timeout init_state")
  have "recv_count (trace s) \<le> recv_count (trace init_state) + Suc max_reads"
    using adds_recvsD [OF adds_recvs_nrepl_exchange, of w code host port timeout init_state] ex
    by simp
  then have "recv_count (trace s) \<le> Suc max_reads"
    by (simp add: init_state_def recv_count_def)
  then show ?thesis
    using ex by (cases r) (simp_all add: send_to_nrepl_init finally_close_recv_count)
qed

text \<open>A stream that never ends the loop is read exactly \<open>max_reads\<close> times.\<close>

lemma replicate_snoc: "replicate k x @ [x] = replicate (Suc k) x"
  by (simp add: replicate_append_same)

lemma read_loop_never_done:
  assumes "\<And>k. k < max_reads \<Longrightarrow> steady w tr k"
  shows "n = max_reads - reads \<Longrightarrow> reads \<le> max_reads \<Longrightarrow>
         read_loop w reads (buffer w tr reads) \<lparr>sock = b, trace = tr @ replicate reads (Recv 4096)\<rparr>
           = (Inr (buffer w tr max_reads), \<lparr>sock = b, trace = tr @ replicate max_reads (Recv 4096)\<rparr>)"
proof (induction n arbitrary: reads)
  case 0
  then have "reads = max_reads" by simp
  then show ?case by (simp add: read_loop.simps [of w max_reads])
next
  case (Suc n)
  then have lt: "reads < max_reads" by simp
  have st: "steady w tr reads" using assms lt .
  obtain p where p: "parse_bencode_response (buffer w tr reads @ chunk w tr reads) = Inr p"
    and nd: "\<not> status_done p"
    using st by (auto simp: steady_def not_done_def split: sum.splits)
  have recv: "socket_recv w 4096 \<lparr>sock = b, trace = tr @ replicate reads (Recv 4096)\<rparr>
                = (Inr (chunk w tr reads), \<lparr>sock = b, trace = tr @ replicate (Suc reads) (Recv 4096)\<rparr>)"
    using st by (simp add: steady_def socket_recv_def Let_def chunk_def replicate_snoc del: replicate_Suc)
  have ne: "chunk w tr reads \<noteq> []" using st by (simp add: steady_def)
  have "read_loop w reads (buffer w tr reads) \<lparr>sock = b, trace = tr @ replicate reads (Recv 4096)\<rparr>
          = read_loop w (Suc reads) (buffer w tr (Suc reads))
              \<lparr>sock = b, trace = tr @ replicate (Suc reads) (Recv 4096)\<rparr>"
    using lt recv ne p nd
    by (subst read_loop.simps) (simp del: replicate_Suc)
  also have "\<dots> = (Inr (buffer w tr max_reads), \<lparr>sock = b, trace = tr @ replicate max_reads (Recv 4096)\<rparr>)"
    using Suc.IH [of "Suc reads"] Suc.prems lt by simp
  finally show ?case .
qed

lemma read_loop_never_done_0:
  assumes "\<And>k. k < max_reads \<Longrightarrow> steady w tr k"
  shows "read_loop w 0 [] \<lparr>sock = b, trace = tr\<rparr>
           = (Inr (buffer w tr max_reads), \<lparr>sock = b, trace = tr @ replicate max_reads (Recv 4096)\<rparr>)"
  using read_loop_never_done [OF assms, of "max_reads" 0 b] by simp

subsection \<open>The socket stays open until the \<open>finally\<close> clause\<close>

lemma read_loop_state:
  "\<exists>k. k \<le> max_reads - reads
     \<and> snd (read_loop w reads result s) = s\<lparr>trace := trace s @ replicate k (Recv 4096)\<rparr>"
proof (induction w reads result s rule: read_loop.induct)
  case (1 w reads result s)
  let ?goal = "\<lambda>st. \<exists>k. k \<le> max_reads - reads \<and> st = s\<lparr>trace := trace s @ replicate k (Recv 4096)\<rparr>"
  show ?case
  proof (cases "reads < max_reads")
    case False
    then have "snd (read_loop w reads result s) = s"
      by (simp add: read_loop.simps [of w reads result s])
    then have "?goal (snd (read_loop w reads result s))"
      by (intro exI [of _ 0]) simp
    then show ?thesis .
  next
    case True
    obtain r s' where rs: "socket_recv w 4096 s = (r, s')" by (cases "socket_recv w 4096 s")
    have s': "s' = s\<lparr>trace := trace s @ [Recv 4096]\<rparr>"
      using rs by (auto simp: socket_recv_def Let_def split: option.splits)
    have one: "?goal s'"
      using True s' by (intro exI [of _ 1]) simp
    show ?thesis
    proof (cases r)
      case (Inl e)
      then have "snd (read_loop w reads result s) = s'"
        using True rs by (simp add: read_loop.simps [of w reads result s])
      then show ?thesis using one by simp
    next
      case (Inr data)
      show ?thesis
      proof (cases "data = []")
        case True
        then have "snd (read_loop w reads result s) = s'"
          using \<open>reads < max_reads\<close> rs Inr by (simp add: read_loop.simps [of w reads result s])
        then show ?thesis using one by simp
      next
        case False
        show ?thesis
        proof (cases "parse_bencode_response (result @ data)")
          case (Inl e)
          then have "snd (read_loop w reads result s) = s'"
            using \<open>reads < max_reads\<close> rs Inr False
            by (simp add: read_loop.simps [of w reads result s])
          then show ?thesis using one by simp
        next
          case parsed: (Inr parsed)
          show ?thesis
          proof (cases "status_done parsed")
            case True
            then have "snd (read_loop w reads result s) = s'"
              using \<open>reads < max_reads\<close> rs Inr False parsed
              by (simp add: read_loop.simps [of w reads result s])
            then show ?thesis using one by simp
          next
            case nd: False
            obtain k where k: "k \<le> max_reads - Suc reads"
              and st: "snd (read_loop w (Suc reads) (result @ data) s')
                         = s'\<lparr>trace := trace s' @ replicate k (Recv 4096)\<rparr>"
              using "1.IH" [OF \<open>reads < max_reads\<close> rs [symmetric] Inr False parsed nd] by blast
            have eq: "snd (read_loop w reads result s)
                        = snd (read_loop w (Suc reads) (result @ data) s')"
              using \<open>reads < max_reads\<close> rs Inr False parsed nd
              by (simp add: read_loop.simps [of w reads result s])
            have "snd (read_loop w reads result s)
                    = s\<lparr>trace := trace s @ replicate (Suc k) (Recv 4096)\<rparr>"
              using st unfolding eq s' by simp
            moreover have "Suc k \<le> max_reads - reads"
              using k \<open>reads < max_reads\<close> by simp
            ultimately show ?thesis by blast
          qed
        qed
      qed
    qed
  qed
qed

lemma keeps_openD: "keeps_open m \<Longrightarrow> open_socket s \<Longrightarrow> open_socket (snd (m s))"
  by (simp add: keeps_open_def)

lemma keeps_open_return: "keeps_open (return_io x)"
  by (simp add: keeps_open_def return_io_def)

lemma keeps_open_lift: "keeps_open (lift_io r)"
  by (simp add: keeps_open_def lift_io_def)

lemma keeps_open_call: "ev \<noteq> Close \<Longrightarrow> keeps_open (socket_call w ev)"
  by (simp add: keeps_open_def open_socket_def socket_call_def Let_def split: option.splits)

lemma keeps_open_recv: "keeps_open (socket_recv w n)"
  by (simp add: keeps_open_def open_socket_def socket_recv_def Let_def split: option.splits)

lemma keeps_open_bind:
  assumes "keeps_open m" and "\<And>x. keeps_open (f x)"
  shows "keeps_open (bind_io m f)"
  unfolding keeps_open_def
proof (intro allI impI)
  fix s
  assume op: "open_socket s"
  obtain r s' where ms: "m s = (r, s')" by (cases "m s")
  have op': "open_socket s'"
    using keeps_openD [OF assms(1) op] ms by simp
  show "open_socket (snd (bind_io m f s))"
  proof (cases r)
    case (Inl e)
    then show ?thesis using ms op' by (simp add: bind_io_def)
  next
    case (Inr x)
    then show ?thesis using ms keeps_openD [OF assms(2) op', of x] by (simp add: bind_io_def)
  qed
qed

lemma keeps_open_read_loop: "keeps_open (read_loop w reads result)"
  unfolding keeps_open_def
proof (intro allI impI)
  fix s
  assume op: "open_socket s"
  obtain k where "snd (read_loop w reads result s) = s\<lparr>trace := trace s @ replicate k (Recv 4096)\<rparr>"
    using read_loop_state by blast
  then show "open_socket (snd (read_loop w reads result s))"
    using op by (simp add: open_socket_def)
qed

lemma keeps_open_collect_result: "keeps_open (collect_result w)"
  unfolding collect_result_def
  by (intro keeps_open_bind keeps_open_read_loop keeps_open_lift keeps_open_return)

lemma keeps_open_evaluate_code: "keeps_open (evaluate_code w code session_id)"
  unfolding evaluate_code_def
  by (intro keeps_open_bind keeps_open_lift keeps_open_call keeps_open_collect_result) simp

lemma keeps_open_after_socket: "keeps_open (after_socket w code host port timeout)"
  unfolding after_socket_def
  by (intro keeps_open_bind keeps_open_lift keeps_open_call keeps_open_recv)
     (auto split: option.splits intro: keeps_open_return keeps_open_evaluate_code)

subsection \<open>A call that raises ends the exchange\<close>

lemma reports_faults_return: "reports_faults w (return_io x)"
  by (simp add: reports_faults_def return_io_def)

lemma reports_faults_lift: "reports_faults w (lift_io r)"
  by (simp add: reports_faults_def lift_io_def)

lemma reports_faults_assign: "reports_faults w assign_sock"
  by (auto simp: reports_faults_def assign_sock_def)

lemma reports_faults_call: "reports_faults w (socket_call w ev)"
  by (auto simp: reports_faults_def socket_call_def Let_def split: option.splits)

lemma reports_faults_recv: "reports_faults w (socket_recv w n)"
  by (auto simp: reports_faults_def socket_recv_def Let_def split: option.splits)

lemma reports_faults_bind:
  assumes "reports_faults w m" and "\<And>x. reports_faults w (f x)"
  shows "reports_faults w (bind_io m f)"
  unfolding reports_faults_def
proof (intro allI impI)
  fix s r s'
  assume b: "bind_io m f s = (r, s')"
  obtain r1 s1 where ms: "m s = (r1, s1)" by (cases "m s")
  obtain evs1 where t1: "trace s1 = trace s @ evs1"
    and f1: "evs1 \<noteq> [] \<longrightarrow> (\<forall>e. fault w (trace s1) = Some e \<longrightarrow> r1 = Inl e)"
    using assms(1) ms unfolding reports_faults_def by blast
  show "\<exists>evs. trace s' = trace s @ evs
           \<and> (evs \<noteq> [] \<longrightarrow> (\<forall>e. fault w (trace s') = Some e \<longrightarrow> r = Inl e))"
  proof (cases r1)
    case (Inl e)
    then have "r = Inl e" "s' = s1" using b ms by (simp_all add: bind_io_def)
    then show ?thesis using t1 f1 Inl by blast
  next
    case (Inr x)
    then have fx: "f x s1 = (r, s')" using b ms by (simp add: bind_io_def)
    obtain evs2 where t2: "trace s' = trace s1 @ evs2"
      and f2: "evs2 \<noteq> [] \<longrightarrow> (\<forall>e. fault w (trace s') = Some e \<longrightarrow> r = Inl e)"
      using assms(2) [of x] fx unfolding reports_faults_def by blast
    have quiet1: "evs1 \<noteq> [] \<longrightarrow> fault w (trace s1) = None"
      using f1 Inr by (cases "fault w (trace s1)") auto
    have tr: "trace s' = trace s @ (evs1 @ evs2)" using t1 t2 by simp
    have "evs1 @ evs2 \<noteq> [] \<longrightarrow> (\<forall>e. fault w (trace s') = Some e \<longrightarrow> r = Inl e)"
    proof (cases "evs2 = []")
      case True
      then show ?thesis using quiet1 t2 by auto
    next
      case False
      then show ?thesis using f2 by blast
    qed
    then show ?thesis using tr by blast
  qed
qed

lemma reports_faults_read_loop:
  "n = max_reads - reads \<Longrightarrow> reports_faults w (read_loop w reads result)"
proof (induction n arbitrary: reads result)
  case 0
  then show ?case
    by (subst read_loop_unfold) (simp add: reports_faults_return)
next
  case (Suc n)
  then have lt: "reads < max_reads" and n: "n = max_reads - Suc reads" by simp_all
  show ?case
    by (subst read_loop_unfold)
       (auto simp: lt intro!: reports_faults_bind reports_faults_recv reports_faults_return
          reports_faults_lift Suc.IH [OF n])
qed

lemma reports_faults_evaluate_code: "reports_faults w (evaluate_code w code session_id)"
  unfolding evaluate_code_def collect_result_def
  by (intro reports_faults_bind reports_faults_lift reports_faults_call reports_faults_return
      reports_faults_read_loop [OF refl])

lemma reports_faults_after_socket: "reports_faults w (after_socket w code host port timeout)"
  unfolding after_socket_def
  by (intro reports_faults_bind reports_faults_lift reports_faults_call reports_faults_recv)
     (auto split: option.splits intro: reports_faults_return reports_faults_evaluate_code)

lemma nrepl_exchange_reports_fault:
  assumes "nrepl_exchange w code host port timeout init_state = (r, s)"
    and "fault w (trace s) = Some e"
  shows "r = Inl e"
proof (cases "fault w [Socket]")
  case (Some e')
  then show ?thesis using assms by (auto simp: nrepl_exchange_socket)
next
  case None
  then have ex: "after_socket w code host port timeout \<lparr>sock = True, trace = [Socket]\<rparr> = (r, s)"
    using assms(1) by (simp add: nrepl_exchange_socket)
  obtain evs where t: "trace s = [Socket] @ evs"
    and f: "evs \<noteq> [] \<longrightarrow> (\<forall>e. fault w (trace s) = Some e \<longrightarrow> r = Inl e)"
    using reports_faults_after_socket [of w code host port timeout, unfolded reports_faults_def,
        rule_format, OF ex]
    by auto
  have "evs \<noteq> []" using t None assms(2) by auto
  then show ?thesis using f assms(2) by blast
qed

subsection \<open>The example worlds\<close>

lemma ustr_Nil: "(ustr s = []) = (s = [])"
  by (simp add: ustr_def)

lemma match_at_replicate: "c \<noteq> x \<Longrightarrow> match_at (c # m) (replicate n x) = None"
  by (cases n) (simp_all add: match_at_def)

lemma re_search_replicate: "c \<noteq> x \<Longrightarrow> re_search (c # m) (replicate n x) = None"
proof (induction n)
  case 0
  then show ?case by (simp add: match_at_def)
next
  case (Suc n)
  then show ?case using match_at_replicate [of c x m "Suc n"] by simp
qed

lemma re_search_status_replicate: "x \<noteq> CHR ''6'' \<Longrightarrow> re_search_status (replicate n x) = False"
  by (induction n) simp_all

lemma parse_replicate_x:
  "parse_bencode_response (replicate n CHR ''x'') = Inr empty_decoded"
  by (simp add: parse_bencode_response_def extract_field_def field_bytes_def
      re_search_replicate re_search_status_replicate empty_decoded_def)

lemma make_eval_request_1: "make_eval_request (ustr ''(+ 1 1)'') (ustr ''abc'') = Inr eval_request_1"
  unfolding eval_request_1_def by code_simp

lemma parse_session_reply:
  "parse_bencode_response ''d11:new-session3:abce''
     = Inr (empty_decoded\<lparr>f_new_session := Some (ustr ''abc'')\<rparr>)"
  by code_simp


lemma parse_err_and_value:
  "parse_bencode_response err_and_value
     = Inr \<lparr>f_new_session = None, f_value = Some (ustr ''2''), f_status = Some [ustr ''done''],
            f_err = Some (ustr ''boom''), f_root_ex = None\<rparr>"
  unfolding err_and_value_def by code_simp

lemma parse_value_two:
  "parse_bencode_response value_two
     = Inr \<lparr>f_new_session = None, f_value = Some (ustr ''2''), f_status = Some [ustr ''done''],
            f_err = None, f_root_ex = None\<rparr>"
  unfolding value_two_def by code_simp

lemma quiet_scripted: "quiet (scripted a b) done evs"
  by (induction evs arbitrary: "done") (simp_all add: scripted_def)

lemma session_resp_scripted:
  "length a \<le> 4096 \<Longrightarrow> session_resp (scripted a b) host port timeout = a"
  by (simp add: session_resp_def scripted_def handshake_events_def)

lemma steady_scripted_x:
  "5 < length tr \<Longrightarrow> buffer (scripted a ''x'') tr k = replicate k CHR ''x''"
  by (induction k) (simp_all add: chunk_def scripted_def replicate_append_same)

lemma reaches_loop_scripted:
  "reaches_loop (scripted ''d11:new-session3:abce'' b) (ustr ''(+ 1 1)'') loopback 36915 30
     eval_request_1"
  by (simp add: reaches_loop_def quiet_scripted session_resp_scripted parse_session_reply
      make_eval_request_1 ustr_Nil)
     (simp add: scripted_def)

lemma refused_exchange:
  "nrepl_exchange (failing_at 3 ConnectionRefusedError) (ustr ''(+ 1 1)'') loopback 36915 30
     \<lparr>sock = False, trace = []\<rparr>
   = (Inl ConnectionRefusedError,
      \<lparr>sock = True, trace = [Socket, SetTimeout 30, Connect loopback 36915]\<rparr>)"
  by (simp add: nrepl_exchange_socket [unfolded init_state_def] after_socket_def failing_at_def
      bind_io_assoc bind_socket_call)

lemma timeout_exchange:
  "nrepl_exchange (failing_at 5 SocketTimeout) (ustr ''(+ 1 1)'') loopback 36915 30
     \<lparr>sock = False, trace = []\<rparr>
   = (Inl SocketTimeout, \<lparr>sock = True, trace = handshake_events loopback 36915 30\<rparr>)"
  by (simp add: nrepl_exchange_socket [unfolded init_state_def] after_socket_def failing_at_def
      bind_io_assoc bind_socket_call bind_socket_recv bind_lift_Inr make_session_request_bytes
      handshake_events_def)

lemma send_value_two:
  "fst (send_to_nrepl (scripted ''d11:new-session3:abce'' value_two)
         (ustr ''(+ 1 1)'') loopback 36915 30) = ustr ''2''"
proof -
  let ?w = "scripted ''d11:new-session3:abce'' value_two"
  let ?p = "\<lparr>f_new_session = None, f_value = Some (ustr ''2''), f_status = Some [ustr ''done''],
            f_err = None, f_root_ex = None\<rparr>"
  let ?s = "loop_state loopback 36915 30 eval_request_1"
  have loop: "read_loop ?w 0 [] ?s = (Inr value_two, ?s\<lparr>trace := trace ?s @ [Recv 4096]\<rparr>)"
  proof (rule read_loop_done_first [OF _ _ _ parse_value_two])
    show "fault ?w (trace ?s @ [Recv 4096]) = None" by (simp add: scripted_def)
    show "take 4096 (incoming ?w (trace ?s @ [Recv 4096])) = value_two"
      by (simp add: scripted_def loop_state_def handshake_events_def value_two_def)
    show "value_two \<noteq> []" by (simp add: value_two_def)
    show "status_done ?p" by (simp add: status_done_def)
  qed
  show ?thesis
    using send_to_nrepl_resolves [OF reaches_loop_scripted loop parse_value_two]
    by (simp add: resolve_def)
qed

lemma send_refused:
  "fst (send_to_nrepl (failing_at 3 ConnectionRefusedError) (ustr ''(+ 1 1)'') loopback 36915 30)
     = ustr ''Error: nREPL connection refused. Is the nREPL server running?''"
  by (simp add: send_to_nrepl_def refused_exchange except_clauses_def)

subsection \<open>Claims\<close>

text \<open>
  C1. The final decoded fields are resolved with a fixed priority: with \<open>err\<close> present
  the result is \<open>Error: \<close> and the error text; otherwise, with \<open>root-ex\<close> present, it is
  \<open>Exception: \<close> and the exception text; otherwise, with \<open>value\<close> present, it is the
  value text; otherwise it is \<open>No result\<close>. This resolution is what \<open>send_to_nrepl\<close>
  returns for every exchange that reaches the read loop and whose accumulated buffer
  decodes to the fields \<open>p\<close>. In particular fields with both \<open>err\<close> and \<open>value\<close> give
  the error.
\<close>

theorem resolution_priority:
  "(f_err p = Some e \<longrightarrow> resolve p = ustr ''Error: '' @ e)
   \<and> (f_err p = None \<and> f_root_ex p = Some x \<longrightarrow> resolve p = ustr ''Exception: '' @ x)
   \<and> (f_err p = None \<and> f_root_ex p = None \<and> f_value p = Some v \<longrightarrow> resolve p = v)
   \<and> (f_err p = None \<and> f_root_ex p = None \<and> f_value p = None
        \<longrightarrow> resolve p = ustr ''No result'')
   \<and> (reaches_loop w code host port timeout request
        \<and> read_loop w 0 [] (loop_state host port timeout request) = (Inr buf, s2)
        \<and> parse_bencode_response buf = Inr p
        \<longrightarrow> fst (send_to_nrepl w code host port timeout) = resolve p)"
  using send_to_nrepl_resolves [of w code host port timeout request buf s2 p]
  by (simp add: resolve_def)

text \<open>A server whose reply carries both \<open>err\<close> and \<open>value\<close>.\<close>

theorem resolution_priority_witness:
  "fst (send_to_nrepl (scripted ''d11:new-session3:abce'' err_and_value)
         (ustr ''(+ 1 1)'') loopback 36915 30) = ustr ''Error: '' @ ustr ''boom''"
proof -
  let ?w = "scripted ''d11:new-session3:abce'' err_and_value"
  let ?p = "\<lparr>f_new_session = None, f_value = Some (ustr ''2''), f_status = Some [ustr ''done''],
            f_err = Some (ustr ''boom''), f_root_ex = None\<rparr>"
  let ?s = "loop_state loopback 36915 30 eval_request_1"
  have loop: "read_loop ?w 0 [] ?s = (Inr err_and_value, ?s\<lparr>trace := trace ?s @ [Recv 4096]\<rparr>)"
  proof (rule read_loop_done_first [OF _ _ _ parse_err_and_value])
    show "fault ?w (trace ?s @ [Recv 4096]) = None" by (simp add: scripted_def)
    show "take 4096 (incoming ?w (trace ?s @ [Recv 4096])) = err_and_value"
      by (simp add: scripted_def loop_state_def handshake_events_def err_and_value_def)
    show "err_and_value \<noteq> []" by (simp add: err_and_value_def)
    show "status_done ?p" by (simp add: status_done_def)
  qed
  have e: "f_err ?p = Some (ustr ''boom'')" by simp
  from resolution_priority [of ?p "ustr ''boom''" _ _ ?w "ustr ''(+ 1 1)''" loopback 36915 30
      eval_request_1 err_and_value "?s\<lparr>trace := trace ?s @ [Recv 4096]\<rparr>"]
    reaches_loop_scripted [of err_and_value] loop parse_err_and_value e
  show ?thesis by simp
qed

text \<open>
  C2. The read loop makes at most 100 calls of \<open>recv\<close>, whatever the socket does, and the
  whole operation at most 101; it stops at once when a read returns no bytes and when
  the accumulated buffer decodes with the \<open>done\<close> marker; and when the loop has ended
  and the buffer decodes to fields without \<open>err\<close>, \<open>root-ex\<close> and \<open>value\<close>, the
  operation returns \<open>No result\<close>. That the loop returns at all is the termination of
  \<open>read_loop\<close>, proved with its definition.
\<close>

theorem read_loop_bounded:
  "recv_count (trace (snd (read_loop w reads result s))) \<le> recv_count (trace s) + (100 - reads)
   \<and> recv_count (trace (snd (send_to_nrepl w code host port timeout))) \<le> 101
   \<and> (reads < 100 \<and> socket_recv w 4096 s = (Inr [], s1)
        \<longrightarrow> read_loop w reads result s = (Inr result, s1))
   \<and> (reads < 100 \<and> socket_recv w 4096 s = (Inr data, s1) \<and> data \<noteq> []
        \<and> parse_bencode_response (result @ data) = Inr parsed \<and> status_done parsed
        \<longrightarrow> read_loop w reads result s = (Inr (result @ data), s1))
   \<and> (reaches_loop w code host port timeout request
        \<and> read_loop w 0 [] (loop_state host port timeout request) = (Inr buf, s2)
        \<and> parse_bencode_response buf = Inr p
        \<and> f_err p = None \<and> f_root_ex p = None \<and> f_value p = None
        \<longrightarrow> fst (send_to_nrepl w code host port timeout) = ustr ''No result'')"
proof (intro conjI impI)
  show "recv_count (trace (snd (read_loop w reads result s))) \<le> recv_count (trace s) + (100 - reads)"
    using read_loop_recv_count [of w reads result s] by (simp add: max_reads_def)
  show "recv_count (trace (snd (send_to_nrepl w code host port timeout))) \<le> 101"
    using send_to_nrepl_recv_count [of w code host port timeout] by (simp add: max_reads_def)
next
  assume "reads < 100 \<and> socket_recv w 4096 s = (Inr [], s1)"
  then show "read_loop w reads result s = (Inr result, s1)"
    by (simp add: read_loop.simps [of w reads result s] max_reads_def)
next
  assume "reads < 100 \<and> socket_recv w 4096 s = (Inr data, s1) \<and> data \<noteq> []
        \<and> parse_bencode_response (result @ data) = Inr parsed \<and> status_done parsed"
  then show "read_loop w reads result s = (Inr (result @ data), s1)"
    by (simp add: read_loop.simps [of w reads result s] max_reads_def)
next
  assume a: "reaches_loop w code host port timeout request
        \<and> read_loop w 0 [] (loop_state host port timeout request) = (Inr buf, s2)
        \<and> parse_bencode_response buf = Inr p
        \<and> f_err p = None \<and> f_root_ex p = None \<and> f_value p = None"
  then have "fst (send_to_nrepl w code host port timeout) = resolve p"
    using send_to_nrepl_resolves [of w code host port timeout request buf s2 p] by blast
  then show "fst (send_to_nrepl w code host port timeout) = ustr ''No result''"
    using a by (simp add: resolve_def)
qed

text \<open>
  A server that answers every read of the loop with the byte \<open>x\<close>: the loop reads 100
  times and the operation returns \<open>No result\<close>.
\<close>

theorem read_loop_bounded_witness:
  "recv_count (trace (snd (send_to_nrepl (scripted ''d11:new-session3:abce'' ''x'')
       (ustr ''(+ 1 1)'') loopback 36915 30))) \<le> 101
   \<and> read_loop (scripted ''d11:new-session3:abce'' ''x'') 0 []
        (loop_state loopback 36915 30 eval_request_1)
      = (Inr (replicate 100 CHR ''x''),
         \<lparr>sock = True, trace = handshake_events loopback 36915 30 @ [SendAll eval_request_1]
              @ replicate 100 (Recv 4096)\<rparr>)
   \<and> fst (send_to_nrepl (scripted ''d11:new-session3:abce'' ''x'')
        (ustr ''(+ 1 1)'') loopback 36915 30) = ustr ''No result''"
proof -
  let ?w = "scripted ''d11:new-session3:abce'' ''x''"
  let ?tr = "handshake_events loopback 36915 30 @ [SendAll eval_request_1]"
  have len: "5 < length ?tr" by (simp add: handshake_events_def)
  have steady: "steady ?w ?tr k" for k
  proof -
    have "not_done (replicate (Suc k) CHR ''x'')"
      by (simp add: not_done_def parse_replicate_x empty_decoded_def status_done_def
          del: replicate_Suc)
    moreover have "chunk ?w ?tr k = ''x''"
      by (simp add: chunk_def scripted_def handshake_events_def)
    moreover have "fault ?w (?tr @ replicate (Suc k) (Recv 4096)) = None"
      by (simp add: scripted_def)
    ultimately show ?thesis
      unfolding steady_def steady_scripted_x [OF len] by simp
  qed
  have loop: "read_loop ?w 0 [] (loop_state loopback 36915 30 eval_request_1)
                = (Inr (replicate 100 CHR ''x''), \<lparr>sock = True, trace = ?tr @ replicate 100 (Recv 4096)\<rparr>)"
    using read_loop_never_done_0 [of ?w ?tr True, OF steady]
    by (simp add: steady_scripted_x [OF len] max_reads_def loop_state_def)
  have final: "parse_bencode_response (replicate 100 CHR ''x'') = Inr empty_decoded"
    by (rule parse_replicate_x)
  have none: "f_err empty_decoded = None \<and> f_root_ex empty_decoded = None \<and> f_value empty_decoded = None"
    by (simp add: empty_decoded_def)
  note inst = read_loop_bounded [where w = ?w and reads = 0 and result = "[]"
      and s = "loop_state loopback 36915 30 eval_request_1" and code = "ustr ''(+ 1 1)''"
      and host = loopback and port = 36915 and timeout = 30 and request = eval_request_1
      and buf = "replicate 100 CHR ''x''"
      and ?s2.0 = "\<lparr>sock = True, trace = ?tr @ replicate 100 (Recv 4096)\<rparr>"
      and p = empty_decoded]
  have c1: "recv_count (trace (snd (send_to_nrepl ?w (ustr ''(+ 1 1)'') loopback 36915 30))) \<le> 101"
    using inst by blast
  have c2: "fst (send_to_nrepl ?w (ustr ''(+ 1 1)'') loopback 36915 30) = ustr ''No result''"
    using inst reaches_loop_scripted [of "''x''"] loop final none by blast
  show ?thesis
    using c1 c2 loop by simp
qed



text \<open>
  C7. Whenever a call on the socket raises \<open>e\<close> during the exchange, and whenever the
  body of the \<open>try\<close> block raises \<open>e\<close> for any other reason, \<open>send_to_nrepl\<close> returns the
  text the \<open>except\<close> clauses give for \<open>e\<close>. That text always begins with \<open>Error: \<close>; for
  a refused connection it names the refusal and for a timeout the timeout.
\<close>

theorem faults_become_error_strings:
  "(fault w (trace (snd (nrepl_exchange w code host port timeout \<lparr>sock = False, trace = []\<rparr>)))
      = Some e
    \<longrightarrow> fst (send_to_nrepl w code host port timeout) = except_clauses w e)
   \<and> (fst (nrepl_exchange w code host port timeout \<lparr>sock = False, trace = []\<rparr>) = Inl e
    \<longrightarrow> fst (send_to_nrepl w code host port timeout) = except_clauses w e)
   \<and> startswith (except_clauses w e) (ustr ''Error: '')
   \<and> except_clauses w ConnectionRefusedError
       = ustr ''Error: nREPL connection refused. Is the nREPL server running?''
   \<and> except_clauses w SocketTimeout = ustr ''Error: nREPL connection timed out''"
proof (intro conjI impI)
  obtain r s where ex: "nrepl_exchange w code host port timeout init_state = (r, s)"
    by (cases "nrepl_exchange w code host port timeout init_state")
  {
    assume "fault w (trace (snd (nrepl_exchange w code host port timeout \<lparr>sock = False, trace = []\<rparr>)))
              = Some e"
    then have "fault w (trace s) = Some e" using ex by (simp add: init_state_def)
    then have "r = Inl e" using nrepl_exchange_reports_fault [OF ex] by simp
    then show "fst (send_to_nrepl w code host port timeout) = except_clauses w e"
      using ex by (simp add: send_to_nrepl_init)
  }
  {
    assume "fst (nrepl_exchange w code host port timeout \<lparr>sock = False, trace = []\<rparr>) = Inl e"
    then have "r = Inl e" using ex by (simp add: init_state_def)
    then show "fst (send_to_nrepl w code host port timeout) = except_clauses w e"
      using ex by (simp add: send_to_nrepl_init)
  }
  show "startswith (except_clauses w e) (ustr ''Error: '')"
    by (simp add: except_clauses_def ustr_def)
  show "except_clauses w ConnectionRefusedError
       = ustr ''Error: nREPL connection refused. Is the nREPL server running?''"
    by (simp add: except_clauses_def)
  show "except_clauses w SocketTimeout = ustr ''Error: nREPL connection timed out''"
    by (simp add: except_clauses_def)
qed

text \<open>A connection that is refused, and a session reply that times out.\<close>

theorem faults_become_error_strings_witness:
  "fst (send_to_nrepl (failing_at 3 ConnectionRefusedError) (ustr ''(+ 1 1)'') loopback 36915 30)
     = ustr ''Error: nREPL connection refused. Is the nREPL server running?''
   \<and> fst (send_to_nrepl (failing_at 5 SocketTimeout) (ustr ''(+ 1 1)'') loopback 36915 30)
     = ustr ''Error: nREPL connection timed out''"
proof -
  let ?r = "failing_at 3 ConnectionRefusedError"
  let ?t = "failing_at 5 SocketTimeout"
  have r: "fault ?r (trace (snd (nrepl_exchange ?r (ustr ''(+ 1 1)'') loopback 36915 30
             \<lparr>sock = False, trace = []\<rparr>))) = Some ConnectionRefusedError"
    by (simp add: refused_exchange) (simp add: failing_at_def)
  have t: "fault ?t (trace (snd (nrepl_exchange ?t (ustr ''(+ 1 1)'') loopback 36915 30
             \<lparr>sock = False, trace = []\<rparr>))) = Some SocketTimeout"
    by (simp add: timeout_exchange) (simp add: failing_at_def handshake_events_def)
  from faults_become_error_strings [of ?r "ustr ''(+ 1 1)''" loopback 36915 30 ConnectionRefusedError] r
  have 1: "fst (send_to_nrepl ?r (ustr ''(+ 1 1)'') loopback 36915 30)
             = ustr ''Error: nREPL connection refused. Is the nREPL server running?''"
    by simp
  from faults_become_error_strings [of ?t "ustr ''(+ 1 1)''" loopback 36915 30 SocketTimeout] t
  have 2: "fst (send_to_nrepl ?t (ustr ''(+ 1 1)'') loopback 36915 30)
             = ustr ''Error: nREPL connection timed out''"
    by simp
  show ?thesis using 1 2 by simp
qed

text \<open>
  C8. When \<open>socket.socket\<close> has returned, the events of the operation end with the
  closing of the socket, on every path, and the socket is not closed before that.
\<close>

theorem socket_closed_on_every_path:
  assumes "fault w [Socket] = None"
  shows "trace (snd (send_to_nrepl w code host port timeout)) \<noteq> []
         \<and> last (trace (snd (send_to_nrepl w code host port timeout))) = Close
         \<and> Close \<notin> set (butlast (trace (snd (send_to_nrepl w code host port timeout))))"
proof -
  obtain r s where ex: "nrepl_exchange w code host port timeout init_state = (r, s)"
    by (cases "nrepl_exchange w code host port timeout init_state")
  have "s = snd (after_socket w code host port timeout \<lparr>sock = True, trace = [Socket]\<rparr>)"
    using ex assms by (simp add: nrepl_exchange_socket)
  moreover have "open_socket \<lparr>sock = True, trace = [Socket]\<rparr>"
    by (simp add: open_socket_def)
  ultimately have op: "open_socket s"
    using keeps_openD [OF keeps_open_after_socket] by simp
  have "trace (snd (send_to_nrepl w code host port timeout)) = trace s @ [Close]"
    using ex op
    by (cases r) (simp_all add: send_to_nrepl_init finally_close_def open_socket_def
        socket_call_def Let_def split: option.splits)
  then show ?thesis using op by (simp add: open_socket_def)
qed

text \<open>The path on which \<open>connect\<close> raises.\<close>

theorem socket_closed_on_every_path_witness:
  "trace (snd (send_to_nrepl (failing_at 3 ConnectionRefusedError) (ustr ''(+ 1 1)'') loopback 36915 30))
     = [Socket, SetTimeout 30, Connect loopback 36915, Close]
   \<and> last (trace (snd (send_to_nrepl (failing_at 3 ConnectionRefusedError) (ustr ''(+ 1 1)'')
         loopback 36915 30))) = Close
   \<and> Close \<notin> set (butlast (trace (snd (send_to_nrepl (failing_at 3 ConnectionRefusedError)
         (ustr ''(+ 1 1)'') loopback 36915 30))))"
proof -
  let ?r = "failing_at 3 ConnectionRefusedError"
  have h: "fault ?r [Socket] = None" by (simp add: failing_at_def)
  have tr: "trace (snd (send_to_nrepl ?r (ustr ''(+ 1 1)'') loopback 36915 30))
              = [Socket, SetTimeout 30, Connect loopback 36915, Close]"
    by (simp add: send_to_nrepl_def refused_exchange finally_close_def socket_call_def Let_def
        split: option.splits)
  show ?thesis
    using socket_closed_on_every_path [OF h, of "ustr ''(+ 1 1)''" loopback 36915 30] tr
    by simp
qed

section \<open>Properties of the result interpreter\<close>

lemma format_lines_loop_filter:
  "format_lines_loop formatted_lines lines = formatted_lines @ filter (any_in whitelist) lines"
  by (induction lines arbitrary: formatted_lines) simp_all

lemma split_on_not_Nil: "split_on sep s \<noteq> []"
  by (induction s) (auto split: list.splits)

lemma split_on_no_sep: "l \<in> set (split_on sep s) \<Longrightarrow> sep \<notin> set l"
proof (induction s arbitrary: l)
  case Nil
  then show ?case by simp
next
  case (Cons c cs)
  show ?case
  proof (cases "c = sep")
    case True
    then show ?thesis using Cons by auto
  next
    case False
    obtain l0 ls where sp: "split_on sep cs = l0 # ls"
      using split_on_not_Nil [of sep cs] by (cases "split_on sep cs") auto
    then have "l = c # l0 \<or> l \<in> set ls" using Cons.prems False by simp
    then show ?thesis
    proof
      assume "l = c # l0"
      then show ?thesis using Cons.IH [of l0] sp False by simp
    next
      assume "l \<in> set ls"
      then show ?thesis using Cons.IH [of l] sp by simp
    qed
  qed
qed

lemma split_on_no_sep_single: "sep \<notin> set l \<Longrightarrow> split_on sep l = [l]"
  by (induction l) simp_all

lemma split_on_append_sep:
  "sep \<notin> set l \<Longrightarrow> split_on sep (l @ sep # rest) = l # split_on sep rest"
  by (induction l) simp_all

lemma split_on_join:
  "ls \<noteq> [] \<Longrightarrow> (\<And>l. l \<in> set ls \<Longrightarrow> sep \<notin> set l) \<Longrightarrow> split_on sep (join [sep] ls) = ls"
proof (induction "[sep]" ls rule: join.induct)
  case 1
  then show ?case by simp
next
  case (2 x)
  then show ?case by (simp add: split_on_no_sep_single)
next
  case (3 x y ys)
  then show ?case by (simp add: split_on_append_sep)
qed

lemma startswith_contains: "startswith s p \<Longrightarrow> contains s p"
  by (cases s) simp_all

lemma startswith_hd_split_on:
  "startswith s p \<Longrightarrow> sep \<notin> set p \<Longrightarrow> startswith (hd (split_on sep s)) p"
proof (induction s p rule: startswith.induct)
  case (1 s)
  then show ?case by simp
next
  case (2 p ps)
  then show ?case by simp
next
  case (3 c cs p ps)
  obtain l0 ls where sp: "split_on sep cs = l0 # ls"
    using split_on_not_Nil [of sep cs] by (cases "split_on sep cs") auto
  show ?case using 3 sp by auto
qed

lemma first_line_kept:
  assumes "startswith result (ustr ''Error:'') \<or> startswith result (ustr ''Exception:'')"
  shows "any_in whitelist (hd (split_on 10 result))"
proof -
  have "startswith (hd (split_on 10 result)) (ustr ''Error:'')
        \<or> startswith (hd (split_on 10 result)) (ustr ''Exception:'')"
    using assms
  proof
    assume "startswith result (ustr ''Error:'')"
    then have "startswith (hd (split_on 10 result)) (ustr ''Error:'')"
      by (rule startswith_hd_split_on) (simp add: ustr_def)
    then show ?thesis ..
  next
    assume "startswith result (ustr ''Exception:'')"
    then have "startswith (hd (split_on 10 result)) (ustr ''Exception:'')"
      by (rule startswith_hd_split_on) (simp add: ustr_def)
    then show ?thesis ..
  qed
  then have "contains (hd (split_on 10 result)) (ustr ''Error:'')
        \<or> contains (hd (split_on 10 result)) (ustr ''Exception:'')"
    using startswith_contains by blast
  then show ?thesis by (auto simp: whitelist_def)
qed

definition trace_message :: pystr where
  "trace_message = ustr ''Exception: Traceback (most recent call last):'' @ [10]
     @ ustr ''  File x.lpy, line 3'' @ [10] @ ustr ''    (boom)'' @ [10] @ ustr ''ValueError: bad''"

definition plain_message :: pystr where
  "plain_message = ustr ''Error: boom'' @ [10] @ ustr ''foo''"

text \<open>
  C5. The claim: the output for a multi-line error or exception message has exactly the
  lines that contain one of the whitelist substrings, in their order. As amended: this
  holds for a message that begins with \<open>Error:\<close> or \<open>Exception:\<close> and contains the word
  \<open>Traceback\<close>; such a message without that word is returned as it is.
\<close>

theorem traceback_filtering:
  "((startswith result (ustr ''Error:'') \<or> startswith result (ustr ''Exception:''))
      \<and> contains result (ustr ''Traceback'')
    \<longrightarrow> split_on 10 (pretty_print_result highlight result)
          = filter (any_in whitelist) (split_on 10 result))
   \<and> ((startswith result (ustr ''Error:'') \<or> startswith result (ustr ''Exception:''))
      \<and> \<not> contains result (ustr ''Traceback'')
    \<longrightarrow> pretty_print_result highlight result = result)"
proof (intro conjI impI)
  assume a: "(startswith result (ustr ''Error:'') \<or> startswith result (ustr ''Exception:''))
      \<and> contains result (ustr ''Traceback'')"
  let ?kept = "filter (any_in whitelist) (split_on 10 result)"
  have out: "pretty_print_result highlight result = join [10] ?kept"
    using a by (auto simp: pretty_print_result_def format_lines_loop_filter)
  obtain l0 ls where sp: "split_on 10 result = l0 # ls"
    using split_on_not_Nil [of 10 result] by (cases "split_on 10 result") auto
  have "any_in whitelist l0" using first_line_kept [of result] a sp by auto
  then have ne: "?kept \<noteq> []" using sp by simp
  have "split_on 10 (join [10] ?kept) = ?kept"
    using ne by (rule split_on_join) (auto dest: split_on_no_sep)
  then show "split_on 10 (pretty_print_result highlight result) = ?kept"
    using out by simp
next
  assume "(startswith result (ustr ''Error:'') \<or> startswith result (ustr ''Exception:''))
      \<and> \<not> contains result (ustr ''Traceback'')"
  then show "pretty_print_result highlight result = result"
    by (auto simp: pretty_print_result_def)
qed

text \<open>A traceback of four lines, one of which is dropped, and a message without the word.\<close>

theorem traceback_filtering_witness:
  "split_on 10 (pretty_print_result Inr trace_message)
     = [ustr ''Exception: Traceback (most recent call last):'', ustr ''  File x.lpy, line 3'',
        ustr ''ValueError: bad'']
   \<and> pretty_print_result Inr plain_message = plain_message"
proof -
  have s1: "startswith trace_message (ustr ''Exception:'')" by code_simp
  have c1: "contains trace_message (ustr ''Traceback'')" by code_simp
  have f1: "filter (any_in whitelist) (split_on 10 trace_message)
     = [ustr ''Exception: Traceback (most recent call last):'', ustr ''  File x.lpy, line 3'',
        ustr ''ValueError: bad'']" by code_simp
  have s2: "startswith plain_message (ustr ''Error:'')" by code_simp
  have c2: "\<not> contains plain_message (ustr ''Traceback'')" by code_simp
  show ?thesis
    using traceback_filtering [of trace_message Inr] traceback_filtering [of plain_message Inr]
      s1 c1 f1 s2 c2
    by simp
qed

text \<open>
  The claim as stated fails for an error message of two lines without the word
  \<open>Traceback\<close>: the second line contains none of the substrings and is in the output.
\<close>

theorem untraced_error_not_filtered:
  "startswith plain_message (ustr ''Error:'')
   \<and> split_on 10 plain_message = [ustr ''Error: boom'', ustr ''foo'']
   \<and> any_in whitelist (ustr ''Error: boom'')
   \<and> \<not> any_in whitelist (ustr ''foo'')
   \<and> split_on 10 (pretty_print_result Inr plain_message) = [ustr ''Error: boom'', ustr ''foo'']"
  by code_simp

section \<open>Properties of the tool adapter\<close>

text \<open>
  C9. \<open>check_connection\<close> evaluates the fixed expression \<open>(+ 1 1)\<close>. When the text that
  comes back is \<open>2\<close>, it returns the success line with the timestamp; for any other text
  it returns the warning line with the timestamp and that text.
\<close>

theorem check_connection_lines:
  "(fst (send_to_nrepl w (ustr ''(+ 1 1)'') host port 30) = ustr ''2''
     \<longrightarrow> check_connection w host port timestamp
           = [0x2705] @ ustr '' Connection successful at '' @ timestamp)
   \<and> (fst (send_to_nrepl w (ustr ''(+ 1 1)'') host port 30) \<noteq> ustr ''2''
     \<longrightarrow> check_connection w host port timestamp
           = [0x26A0, 0xFE0F] @ ustr '' Connection issue at '' @ timestamp
             @ ustr ''. Server responded but with unexpected result: ''
             @ fst (send_to_nrepl w (ustr ''(+ 1 1)'') host port 30))"
  by (simp add: check_connection_def Let_def)

text \<open>A server that answers \<open>2\<close>, and a connection that is refused.\<close>

theorem check_connection_lines_witness:
  "check_connection (scripted ''d11:new-session3:abce'' value_two) loopback 36915
       (ustr ''2026-01-01 12:00:00'')
     = [0x2705] @ ustr '' Connection successful at '' @ ustr ''2026-01-01 12:00:00''
   \<and> check_connection (failing_at 3 ConnectionRefusedError) loopback 36915
       (ustr ''2026-01-01 12:00:00'')
     = [0x26A0, 0xFE0F] @ ustr '' Connection issue at '' @ ustr ''2026-01-01 12:00:00''
         @ ustr ''. Server responded but with unexpected result: ''
         @ ustr ''Error: nREPL connection refused. Is the nREPL server running?''"
proof -
  have ne: "ustr ''Error: nREPL connection refused. Is the nREPL server running?'' \<noteq> ustr ''2''"
    by (simp add: ustr_def)
  from check_connection_lines [of "scripted ''d11:new-session3:abce'' value_two" loopback 36915
      "ustr ''2026-01-01 12:00:00''"] send_value_two
  have 1: "check_connection (scripted ''d11:new-session3:abce'' value_two) loopback 36915
       (ustr ''2026-01-01 12:00:00'')
     = [0x2705] @ ustr '' Connection successful at '' @ ustr ''2026-01-01 12:00:00''"
    by blast
  from check_connection_lines [of "failing_at 3 ConnectionRefusedError" loopback 36915
      "ustr ''2026-01-01 12:00:00''"] send_refused ne
  have 2: "check_connection (failing_at 3 ConnectionRefusedError) loopback 36915
       (ustr ''2026-01-01 12:00:00'')
     = [0x26A0, 0xFE0F] @ ustr '' Connection issue at '' @ ustr ''2026-01-01 12:00:00''
         @ ustr ''. Server responded but with unexpected result: ''
         @ ustr ''Error: nREPL connection refused. Is the nREPL server running?''"
    by simp
  show ?thesis using 1 2 by blast
qed

end
